theory Spec2Isabelle
  imports Complex_Main "HOL-Library.AList" "HOL-Library.Log_Nat"
begin

section \<open>Allele code assignment: a shallow embedding of assignAlleleCodes\<close>

text \<open>
  The script is Python. Its integers are unbounded (\<open>int\<close>), its lists are HOL lists, its
  dictionaries are association lists in insertion order (the order is observable in several
  places), and every exception it can raise is a value of \<open>py_error\<close>, returned as \<open>Inl\<close>.
  A Python float is an IEEE double. A double is a rational number, so a float value is a
  \<open>rat\<close>, compared exactly, and every float operation returns the double nearest to the exact
  result (\<open>to_double\<close> below).
\<close>

datatype py_error =
  IndexError | KeyError | TypeError | ValueError | ZeroDivisionError
  | AssertionError | AttributeError | JSONDecodeError | RuntimeError | IOError
  | UnboundLocalError

definition ebind :: "py_error + 'a \<Rightarrow> ('a \<Rightarrow> py_error + 'b) \<Rightarrow> py_error + 'b" where
  "ebind m f = (case m of Inl e \<Rightarrow> Inl e | Inr x \<Rightarrow> f x)"

text \<open>A list comprehension whose element expression may raise: the first error wins.\<close>

fun traverse :: "('a \<Rightarrow> py_error + 'b) \<Rightarrow> 'a list \<Rightarrow> py_error + 'b list" where
  "traverse f [] = Inr []"
| "traverse f (x # xs) =
     (case f x of
        Inl e \<Rightarrow> Inl e
      | Inr y \<Rightarrow> (case traverse f xs of Inl e \<Rightarrow> Inl e | Inr ys \<Rightarrow> Inr (y # ys)))"

text \<open>\<open>xs[i]\<close> for an index that comes from \<open>range\<close>, hence is never negative.\<close>

definition getitem :: "'a list \<Rightarrow> nat \<Rightarrow> py_error + 'a" where
  "getitem xs i = (if i < length xs then Inr (xs ! i) else Inl IndexError)"

subsection \<open>Floats\<close>

text \<open>
  Rounding to the nearest double, ties to the even significand: for \<open>x \<noteq> 0\<close> with
  \<open>2 ^ k \<le> |x| < 2 ^ (k + 1)\<close> the doubles around \<open>|x|\<close> are the multiples of \<open>2 ^ (k - 52)\<close>.
  (Overflow and subnormal numbers are left out: every float of the script lies between
  \<open>2 ^ - 1022\<close> and \<open>2 ^ 1024\<close> in absolute value, or is zero.)
\<close>

definition pow2 :: "int \<Rightarrow> rat" where
  "pow2 e = (if 0 \<le> e then 2 ^ nat e else 1 / 2 ^ nat (- e))"

definition round_half_even :: "rat \<Rightarrow> int" where
  "round_half_even m =
     (let f = \<lfloor>m\<rfloor>; r = m - of_int f in
      if r < 1 / 2 then f else if r > 1 / 2 then f + 1 else if even f then f else f + 1)"

text \<open>\<open>\<lfloor>log\<^sub>2 a\<rfloor>\<close> for \<open>a > 0\<close>, from the bit lengths of numerator and denominator.\<close>

definition ilog2 :: "rat \<Rightarrow> int" where
  "ilog2 a =
     (let (p, q) = quotient_of a; k = bitlen p - bitlen q in
      if pow2 k \<le> a then k else k - 1)"

definition to_double :: "rat \<Rightarrow> rat" where
  "to_double x =
     (if x = 0 then 0
      else
        (let a = \<bar>x\<bar>; e = ilog2 a - 52;
             r = of_int (round_half_even (a / pow2 e)) * pow2 e
         in if 0 < x then r else - r))"

text \<open>The float operations of the script.\<close>

definition fsub :: "rat \<Rightarrow> rat \<Rightarrow> rat" where
  "fsub a b = to_double (a - b)"

definition fmul :: "rat \<Rightarrow> rat \<Rightarrow> rat" where
  "fmul a b = to_double (a * b)"

definition fdiv :: "rat \<Rightarrow> rat \<Rightarrow> rat" where
  "fdiv a b = to_double (a / b)"

subsection \<open>GetDistance\<close>

text \<open>
  \<^verbatim>\<open>nCommon = sum([p1[i]>0 and p2[i]>0 for i in range(len(p1))])\<close>:
  \<open>and\<close> is short-circuit, so \<open>p2[i]\<close> is read only where \<open>p1[i] > 0\<close>.
\<close>

definition common_at :: "int list \<Rightarrow> int list \<Rightarrow> nat \<Rightarrow> py_error + bool" where
  "common_at p1 p2 i =
     ebind (getitem p1 i) (\<lambda>a.
       if a > 0 then ebind (getitem p2 i) (\<lambda>b. Inr (b > 0)) else Inr False)"

text \<open>
  \<^verbatim>\<open>nDiff = sum([p1[i] != p2[i] for i in range(len(p1)) if p1[i] and p2[i]])\<close>:
  the filter tests truthiness (non-zero), again short-circuit; \<open>None\<close> is a position
  the filter drops.
\<close>

definition diff_at :: "int list \<Rightarrow> int list \<Rightarrow> nat \<Rightarrow> py_error + bool option" where
  "diff_at p1 p2 i =
     ebind (getitem p1 i) (\<lambda>a.
       if a \<noteq> 0 then
         ebind (getitem p2 i) (\<lambda>b.
           if b \<noteq> 0 then
             ebind (getitem p1 i) (\<lambda>a'. ebind (getitem p2 i) (\<lambda>b'. Inr (Some (a' \<noteq> b'))))
           else Inr None)
       else Inr None)"

definition sum_bools :: "bool list \<Rightarrow> nat" where
  "sum_bools bs = length (filter (\<lambda>b. b) bs)"

definition sum_kept :: "bool option list \<Rightarrow> nat" where
  "sum_kept bs = length (filter (\<lambda>b. b = Some True) bs)"

text \<open>
  The function also increments the global counter \<open>cntDistancesCalculated\<close>, which is only
  ever written to the log; it is left out. The result is the quotient itself; the double
  that the script returns is its rounding, \<open>to_double\<close> of it (the product
  \<open>100.0 * float(nDiff)\<close> is exact, and the division rounds once), and that is the value the
  callers below work with.
\<close>

definition GetDistance :: "int list \<Rightarrow> int list \<Rightarrow> py_error + rat" where
  "GetDistance p1 p2 =
     ebind (traverse (common_at p1 p2) [0..<length p1]) (\<lambda>cs.
     ebind (traverse (diff_at p1 p2) [0..<length p1]) (\<lambda>ds.
       let nCommon = sum_bools cs; nDiff = sum_kept ds in
       if nCommon \<noteq> 0 then Inr (100 * of_nat nDiff / of_nat nCommon) else Inr 100))"

text \<open>The two sums of the source, as cardinalities: \<open>nDiff\<close> filters on truthiness.\<close>

definition nCommon :: "int list \<Rightarrow> int list \<Rightarrow> nat" where
  "nCommon p1 p2 = card {i. i < length p1 \<and> p1 ! i > 0 \<and> p2 ! i > 0}"

definition nDiff :: "int list \<Rightarrow> int list \<Rightarrow> nat" where
  "nDiff p1 p2 = card {i. i < length p1 \<and> p1 ! i \<noteq> 0 \<and> p2 ! i \<noteq> 0 \<and> p1 ! i \<noteq> p2 ! i}"

text \<open>The two counts of the specification, as cardinalities of index sets.\<close>

definition common :: "int list \<Rightarrow> int list \<Rightarrow> nat" where
  "common p1 p2 = card {i. i < length p1 \<and> p1 ! i > 0 \<and> p2 ! i > 0}"

definition diff :: "int list \<Rightarrow> int list \<Rightarrow> nat" where
  "diff p1 p2 = card {i. i < length p1 \<and> p1 ! i > 0 \<and> p2 ! i > 0 \<and> p1 ! i \<noteq> p2 ! i}"

definition spec_dist :: "int list \<Rightarrow> int list \<Rightarrow> rat" where
  "spec_dist p1 p2 =
     (if common p1 p2 = 0 then 100
      else 100 * of_nat (diff p1 p2) / of_nat (common p1 p2))"

text \<open>A profile in the sense of the data model: allele numbers are never negative.\<close>

definition is_profile :: "int list \<Rightarrow> bool" where
  "is_profile p = list_all (\<lambda>x. 0 \<le> x) p"

subsection \<open>The nomenclature tree\<close>

text \<open>
  A \<open>NamedNode\<close> is a \<open>Node\<close> with two more fields, \<open>_wgst\<close> (its code) and
  \<open>_namedChildren\<close>, a dictionary whose values are all the node's own \<open>_wgst\<close>: only its keys,
  in insertion order, carry information. \<open>named = None\<close> is a plain \<open>Node\<close>.
\<close>

record named_part =
  wgst :: "int list"
  namedChildren :: "string list"

text \<open>
  The tree is owned downwards. The script keys every child dictionary by the child's own
  \<open>_ID\<close> (\<open>NewChildNode\<close>, \<open>AddChild\<close> after \<open>SetID\<close>, and \<open>Load\<close> of a file written by
  \<open>Save\<close> all do), so \<open>children\<close> is the list of child nodes in dictionary order and a child is
  looked up by its \<open>nID\<close>. The parent pointer is the position in the tree: \<open>RTraverse\<close>,
  reversed, of the node reached from the root by the ids \<open>p\<close> is \<open>p\<close> itself.
\<close>

datatype node = Node
  (nID: int) (nlevel: int) (children: "node list")
  (diameter: rat) (preferred: "string option")
  (entryKeys: "string list option")
  (named: "named_part option")

definition set_ID :: "int \<Rightarrow> node \<Rightarrow> node" where
  "set_ID i n = Node i (nlevel n) (children n) (diameter n) (preferred n) (entryKeys n) (named n)"

definition set_children :: "node list \<Rightarrow> node \<Rightarrow> node" where
  "set_children cs n = Node (nID n) (nlevel n) cs (diameter n) (preferred n) (entryKeys n) (named n)"

definition set_diameter :: "rat \<Rightarrow> node \<Rightarrow> node" where
  "set_diameter d n = Node (nID n) (nlevel n) (children n) d (preferred n) (entryKeys n) (named n)"

definition set_preferred :: "string option \<Rightarrow> node \<Rightarrow> node" where
  "set_preferred p n = Node (nID n) (nlevel n) (children n) (diameter n) p (entryKeys n) (named n)"

definition set_entryKeys :: "string list option \<Rightarrow> node \<Rightarrow> node" where
  "set_entryKeys ks n = Node (nID n) (nlevel n) (children n) (diameter n) (preferred n) ks (named n)"

definition set_named :: "named_part option \<Rightarrow> node \<Rightarrow> node" where
  "set_named d n = Node (nID n) (nlevel n) (children n) (diameter n) (preferred n) (entryKeys n) d"

definition GetChild :: "node \<Rightarrow> int \<Rightarrow> node option" where
  "GetChild n i = find (\<lambda>c. nID c = i) (children n)"

definition DeleteChild :: "int \<Rightarrow> node \<Rightarrow> py_error + node" where
  "DeleteChild i n =
     (if i \<in> nID ` set (children n)
      then Inr (set_children (filter (\<lambda>c. nID c \<noteq> i) (children n)) n)
      else Inl KeyError)"

definition NamedChildCount :: "node \<Rightarrow> nat" where
  "NamedChildCount n = (case named n of None \<Rightarrow> 0 | Some d \<Rightarrow> length (namedChildren d))"

definition TotalChildCount :: "node \<Rightarrow> nat" where
  "TotalChildCount n = length (children n) + NamedChildCount n"

text \<open>The node reached from \<open>n\<close> by a path of ids, and the update of that node in place.\<close>

fun node_at :: "node \<Rightarrow> int list \<Rightarrow> node option" where
  "node_at n [] = Some n"
| "node_at n (i # p) = (case GetChild n i of None \<Rightarrow> None | Some c \<Rightarrow> node_at c p)"

fun replace_first :: "int \<Rightarrow> node \<Rightarrow> node list \<Rightarrow> node list" where
  "replace_first i c' [] = []"
| "replace_first i c' (c # cs) = (if nID c = i then c' # cs else c # replace_first i c' cs)"

fun update_at :: "int list \<Rightarrow> (node \<Rightarrow> node) \<Rightarrow> node \<Rightarrow> node" where
  "update_at [] f n = f n"
| "update_at (i # p) f n =
     (case GetChild n i of
        None \<Rightarrow> n
      | Some c \<Rightarrow> set_children (replace_first i (update_at p f c) (children n)) n)"

lemma sum_size_children: "sum_list (map size (children n)) < size n"
  by (cases n) (simp add: size_list_conv_sum_list)

text \<open>
  \<open>DFSNamed\<close>: the loop over the stack \<open>toCheck\<close>, which pops from the end and pushes the
  children of a plain node. Every entry carries the ids from the root to the node.
\<close>

function DFSNamed_loop :: "(int list \<times> node) list \<Rightarrow> (int list \<times> node) list" where
  "DFSNamed_loop toCheck =
     (if toCheck = [] then []
      else let (p, ob) = last toCheck; rest = butlast toCheck in
        if named ob \<noteq> None then (p, ob) # DFSNamed_loop rest
        else DFSNamed_loop (rest @ map (\<lambda>c. (p @ [nID c], c)) (children ob)))"
  by pat_completeness auto
termination
proof (relation "measure (\<lambda>stk. sum_list (map (\<lambda>(p, n). size n) stk))")
  show "wf (measure (\<lambda>stk. sum_list (map (\<lambda>(p, n). size n) stk)))" by simp
next
  fix toCheck :: "(int list \<times> node) list" and x p ob rest
  assume a: "toCheck \<noteq> []" "x = last toCheck" "(p, ob) = x" "rest = butlast toCheck"
  then have s: "toCheck = rest @ [(p, ob)]" by simp
  { assume "named ob \<noteq> None"
    show "(rest, toCheck) \<in> measure (\<lambda>stk. sum_list (map (\<lambda>(p, n). size n) stk))"
      unfolding s by (cases ob) simp }
  { assume "\<not> named ob \<noteq> None"
    have "sum_list (map ((\<lambda>(p, n). size n) \<circ> (\<lambda>c. (p @ [nID c], c))) (children ob))
            = sum_list (map size (children ob))"
      by (simp add: comp_def)
    then show "(rest @ map (\<lambda>c. (p @ [nID c], c)) (children ob), toCheck)
                 \<in> measure (\<lambda>stk. sum_list (map (\<lambda>(p, n). size n) stk))"
      unfolding s using sum_size_children [of ob] by simp }
qed

declare DFSNamed_loop.simps [simp del]

definition DFSNamed :: "int list \<Rightarrow> node \<Rightarrow> (int list \<times> node) list" where
  "DFSNamed p n =
     (if named n \<noteq> None then [(p, n)]
      else DFSNamed_loop (map (\<lambda>c. (p @ [nID c], c)) (children n)))"

definition GetNamedChildren :: "node \<Rightarrow> py_error + string list" where
  "GetNamedChildren n = (case named n of None \<Rightarrow> Inl AttributeError | Some d \<Rightarrow> Inr (namedChildren d))"

definition iter_entrykeys :: "node \<Rightarrow> string list" where
  "iter_entrykeys n =
     concat (map (\<lambda>(p, m). case named m of None \<Rightarrow> [] | Some d \<Rightarrow> namedChildren d) (DFSNamed [] n))"

text \<open>The property \<open>EntryKeys\<close>: the getter fills the cache \<open>_entryKeys\<close> on first use.\<close>

definition EntryKeys :: "node \<Rightarrow> string list \<times> node" where
  "EntryKeys n =
     (case entryKeys n of
        Some ks \<Rightarrow> (ks, n)
      | None \<Rightarrow> (let ks = iter_entrykeys n in (ks, set_entryKeys (Some ks) n)))"

text \<open>
  \<open>Tree\<close>: the root node, the dictionary \<open>_names\<close> and the class variable \<open>DEPTH\<close>.
  (\<open>_oldNames\<close> and \<open>_treeHasBeenBuilt\<close> serve the change log and the renaming hook only.)
\<close>

record tree =
  troot :: node
  names :: "(string \<times> int list) list"
  DEPTH :: int

text \<open>\<open>dict.setdefault(key, [])\<close> on an insertion-ordered dictionary.\<close>

definition setdefault :: "(string \<times> int list) list \<Rightarrow> string \<Rightarrow> int list \<times> (string \<times> int list) list" where
  "setdefault d key =
     (case map_of d key of Some v \<Rightarrow> (v, d) | None \<Rightarrow> ([], d @ [(key, [])]))"

definition GetName :: "tree \<Rightarrow> string \<Rightarrow> int list \<times> tree" where
  "GetName t key = (let (v, d) = setdefault (names t) key in (v, t\<lparr>names := d\<rparr>))"

definition HasName :: "tree \<Rightarrow> string \<Rightarrow> bool" where
  "HasName t key = (key \<in> fst ` set (names t))"

definition GetPart :: "tree \<Rightarrow> string \<Rightarrow> nat \<Rightarrow> int list \<times> tree" where
  "GetPart t key level = (let (v, t') = GetName t key in (take level v, t'))"

fun Traverse :: "node \<Rightarrow> int list \<Rightarrow> py_error + node option" where
  "Traverse n [] = Inl IndexError"
| "Traverse n [i] = Inr (GetChild n i)"
| "Traverse n (i # p) = (case GetChild n i of Some child \<Rightarrow> Traverse child p | None \<Rightarrow> Inr None)"

definition FinalizeName :: "node \<Rightarrow> (string \<times> int list) list \<Rightarrow> string \<Rightarrow> int list
    \<Rightarrow> py_error + (string \<times> int list) list" where
  "FinalizeName rt nms key name =
     ebind (Traverse rt name) (\<lambda>r.
       case r of
         None \<Rightarrow> Inl AttributeError
       | Some n \<Rightarrow>
           (case named n of
              None \<Rightarrow> Inl AttributeError
            | Some d \<Rightarrow>
                if key \<in> set (namedChildren d) then Inr (AList.update key name nms)
                else Inl AssertionError))"

subsection \<open>The profile store\<close>

text \<open>
  \<open>AlleleCalls\<close>: the hot dictionary \<open>_alleleCalls\<close>, the dictionary \<open>_index\<close> and the list
  \<open>_matrices\<close> of shards (\<open>None\<close> for a shard not loaded yet). An index entry is the tuple
  \<open>(shard, slot)\<close> that \<open>_Convert\<close> stores, or the list that \<open>json.load\<close> returns for an
  entry read from \<open>index.gzip\<close>.
\<close>

datatype idx = Tup nat nat | Lst "int list"

record AlleleCalls =
  alleleCalls :: "(string \<times> int list) list"
  index :: "(string \<times> idx) list"
  matrices :: "(string \<times> int list) list option list"

definition truthy_idx :: "idx \<Rightarrow> bool" where
  "truthy_idx i = (case i of Tup s k \<Rightarrow> True | Lst xs \<Rightarrow> xs \<noteq> [])"

text \<open>
  \<open>GetCalls\<close>. For a key with a (non-empty) index entry the script loads the shard and returns
  \<open>self._matrices[idx[0]][idx[1]]\<close>. A shard is the dictionary from keys to profiles that
  \<open>_Convert\<close> wrote, and \<open>idx[1]\<close> is a slot number, so this lookup raises \<open>KeyError\<close> (unless
  loading the shard has raised before): a cold key never yields a profile. Otherwise the
  result is \<open>_alleleCalls.get(key, None)\<close>.
\<close>

definition GetCalls :: "AlleleCalls \<Rightarrow> string \<Rightarrow> py_error + int list option" where
  "GetCalls ac key =
     (case map_of (index ac) key of
        Some i \<Rightarrow> if truthy_idx i then Inl KeyError else Inr (map_of (alleleCalls ac) key)
      | None \<Rightarrow> Inr (map_of (alleleCalls ac) key))"

definition HasKey :: "AlleleCalls \<Rightarrow> string \<Rightarrow> bool" where
  "HasKey ac key = (key \<in> fst ` set (index ac) \<or> key \<in> fst ` set (alleleCalls ac))"

definition Add :: "AlleleCalls \<Rightarrow> string \<Rightarrow> int list \<Rightarrow> py_error + AlleleCalls" where
  "Add ac key calls =
     (if key \<in> fst ` set (alleleCalls ac) then Inl AssertionError
      else if key \<in> fst ` set (index ac) then Inl AssertionError
      else Inr (ac\<lparr>alleleCalls := alleleCalls ac @ [(key, calls)]\<rparr>))"

subsection \<open>CalcName\<close>

text \<open>
  The local dictionary \<open>distances\<close> (never iterated, so a map) and the dictionary \<open>index\<close>
  built from \<open>enumerate(namedEntries)\<close>, where a later position of a repeated key wins.
\<close>

type_synonym dists = "string \<Rightarrow> rat list option"

definition index_of :: "string list \<Rightarrow> string \<Rightarrow> nat option" where
  "index_of namedEntries k = map_of (rev (zip namedEntries [0..<length namedEntries])) k"

text \<open>
  \<open>GetDistance\<close> on the results of \<open>GetCalls\<close>, either of which may be \<open>None\<close>: \<open>len(None)\<close>
  raises at once, and \<open>None[i]\<close> raises exactly where \<open>[][i]\<close> would.
\<close>

definition GetDistance_calls :: "int list option \<Rightarrow> int list option \<Rightarrow> py_error + rat" where
  "GetDistance_calls v1 v2 =
     (case v1 of
        None \<Rightarrow> Inl TypeError
      | Some p1 \<Rightarrow>
          (case v2 of
             Some p2 \<Rightarrow> GetDistance p1 p2
           | None \<Rightarrow> (case GetDistance p1 [] of Inl e \<Rightarrow> Inl TypeError | Inr d \<Rightarrow> Inr d)))"

definition GetDistanceToNamedEntry ::
    "AlleleCalls \<Rightarrow> string list \<Rightarrow> dists \<Rightarrow> string \<Rightarrow> string \<Rightarrow> py_error + (rat \<times> dists)" where
  "GetDistanceToNamedEntry alleles namedEntries distances unNamedEntryKey namedEntryKey =
     (let myDistances =
            (case distances unNamedEntryKey of
               None \<Rightarrow> replicate (length namedEntries) (- 1)
             | Some row \<Rightarrow> row);
          distances1 = distances(unNamedEntryKey \<mapsto> myDistances)
      in case index_of namedEntries namedEntryKey of
           None \<Rightarrow> Inl KeyError
         | Some i \<Rightarrow>
             ebind (getitem myDistances i) (\<lambda>c.
               if c \<ge> 0 then Inr (c, distances1)
               else
                 ebind (GetCalls alleles namedEntryKey) (\<lambda>v1.
                 ebind (GetCalls alleles unNamedEntryKey) (\<lambda>v2.
                 ebind (GetDistance_calls v1 v2) (\<lambda>q.
                   let d = to_double q in
                   Inr (d, distances1(unNamedEntryKey \<mapsto> myDistances[i := d])))))))"

text \<open>The \<open>for sample2 in node.EntryKeys\<close> loop of \<open>IsInCluster\<close>, with its early return.\<close>

fun any_within :: "AlleleCalls \<Rightarrow> string list \<Rightarrow> string \<Rightarrow> rat \<Rightarrow> string list \<Rightarrow> dists
    \<Rightarrow> py_error + (bool \<times> dists)" where
  "any_within alleles namedEntries u threshold [] ds = Inr (False, ds)"
| "any_within alleles namedEntries u threshold (sample2 # rest) ds =
     ebind (GetDistanceToNamedEntry alleles namedEntries ds u sample2) (\<lambda>(d, ds').
       if d \<le> threshold then Inr (True, ds')
       else any_within alleles namedEntries u threshold rest ds')"

text \<open>
  \<open>IsInCluster\<close>. A node without founder has \<open>Preferred = None\<close>, which is not a key of
  \<open>index\<close>: \<open>KeyError\<close>. The node is returned because reading \<open>EntryKeys\<close> may fill its cache.
  The test \<^verbatim>\<open>d - node.Diameter - 2.0*(100.0 - 100.0*corePercent) > threshold\<close> is float
  arithmetic, one rounding per operation, left to right. The threshold, the diameter and
  \<open>corePercent\<close> are floats of the script; they are read through \<open>to_double\<close>, which leaves a
  double as it is and reads any other rational as the double nearest to it (as Python reads
  the literal \<open>0.95\<close>).
\<close>

definition IsInCluster :: "AlleleCalls \<Rightarrow> string list \<Rightarrow> dists \<Rightarrow> string \<Rightarrow> node \<Rightarrow> rat \<Rightarrow> rat
    \<Rightarrow> py_error + (bool \<times> node \<times> dists)" where
  "IsInCluster alleles namedEntries distances unNamedEntryKey nd threshold corePercent =
     (case preferred nd of
        None \<Rightarrow> Inl KeyError
      | Some founder \<Rightarrow>
          ebind (GetDistanceToNamedEntry alleles namedEntries distances unNamedEntryKey founder)
            (\<lambda>(d, ds).
              if d \<le> to_double threshold then Inr (True, nd, ds)
              else if fsub (fsub d (to_double (diameter nd)))
                        (fmul 2 (fsub 100 (fmul 100 (to_double corePercent))))
                      > to_double threshold
              then Inr (False, nd, ds)
              else
                (let (keys, nd') = EntryKeys nd in
                 ebind (any_within alleles namedEntries unNamedEntryKey (to_double threshold)
                          keys ds)
                   (\<lambda>(b, ds'). Inr (b, nd', ds')))))"

text \<open>\<open>GetMaxDistanceToNode\<close>: \<open>max\<close> of an empty sequence raises \<open>ValueError\<close>.\<close>

fun dists_to :: "AlleleCalls \<Rightarrow> string list \<Rightarrow> string \<Rightarrow> string list \<Rightarrow> dists
    \<Rightarrow> py_error + (rat list \<times> dists)" where
  "dists_to alleles namedEntries entryKey [] ds = Inr ([], ds)"
| "dists_to alleles namedEntries entryKey (m # ms) ds =
     ebind (GetDistanceToNamedEntry alleles namedEntries ds entryKey m) (\<lambda>(d, ds').
     ebind (dists_to alleles namedEntries entryKey ms ds') (\<lambda>(rest, ds'').
       Inr (d # rest, ds'')))"

definition py_max :: "'a::linorder list \<Rightarrow> py_error + 'a" where
  "py_max xs = (case xs of [] \<Rightarrow> Inl ValueError | x # rest \<Rightarrow> Inr (fold max rest x))"

definition GetMaxDistanceToNode :: "AlleleCalls \<Rightarrow> string list \<Rightarrow> dists \<Rightarrow> string \<Rightarrow> string list
    \<Rightarrow> py_error + (rat \<times> dists)" where
  "GetMaxDistanceToNode alleles namedEntries distances entryKey keys =
     ebind (dists_to alleles namedEntries entryKey keys distances) (\<lambda>(vals, ds).
     ebind (py_max vals) (\<lambda>m. Inr (m, ds)))"

subsection \<open>MergeNodes\<close>

text \<open>\<open>max(xs, key=f)\<close>: the first of the largest elements; \<open>ValueError\<close> on an empty sequence.\<close>

definition py_max_by :: "('a \<Rightarrow> nat) \<Rightarrow> 'a list \<Rightarrow> py_error + 'a" where
  "py_max_by f xs =
     (case xs of
        [] \<Rightarrow> Inl ValueError
      | x # rest \<Rightarrow> Inr (fold (\<lambda>y best. if f y > f best then y else best) rest x))"

text \<open>Keys of a dictionary filled from a sequence: each key once, at its first position.\<close>

fun dedup_first :: "int list \<Rightarrow> int list" where
  "dedup_first [] = []"
| "dedup_first (x # xs) = x # dedup_first (filter (\<lambda>y. y \<noteq> x) xs)"

text \<open>\<open>sum(n.TotalChildCount() for n in node.DFSNamed())\<close>.\<close>

definition node_size :: "node \<Rightarrow> nat" where
  "node_size n = sum_list (map (\<lambda>(p, m). TotalChildCount m) (DFSNamed [] n))"

definition AddNamedChild :: "string \<Rightarrow> node \<Rightarrow> py_error + node" where
  "AddNamedChild key n =
     (case named n of
        None \<Rightarrow> Inl AttributeError
      | Some d \<Rightarrow>
          Inr (set_named
                 (Some (d\<lparr>namedChildren :=
                           (if key \<in> set (namedChildren d) then namedChildren d
                            else namedChildren d @ [key])\<rparr>)) n))"

fun AddNamedChildren :: "string list \<Rightarrow> node \<Rightarrow> py_error + node" where
  "AddNamedChildren [] n = Inr n"
| "AddNamedChildren (key # keys) n = ebind (AddNamedChild key n) (AddNamedChildren keys)"

text \<open>
  The merge at the last level: the keys of every other node move into \<open>maxObj\<close>, and the node
  is deleted from \<open>self\<close>. \<open>maxObj\<close> is carried beside \<open>self\<close> and written back afterwards.
\<close>

fun merge_named :: "node \<Rightarrow> node \<Rightarrow> node list \<Rightarrow> py_error + (node \<times> node)" where
  "merge_named self maxObj [] = Inr (self, maxObj)"
| "merge_named self maxObj (nd # rest) =
     ebind (GetNamedChildren nd) (\<lambda>keys.
     ebind (AddNamedChildren keys maxObj) (\<lambda>maxObj'.
     ebind (DeleteChild (nID nd) self) (\<lambda>self'.
       merge_named self' maxObj' rest)))"

text \<open>
  \<^verbatim>\<open>for i, child in enumerate(node.GetChildrenNodes(), toStart): child.SetID(i); maxObj.AddChild(i, child)\<close>;
  the result carries the last value of \<open>i\<close>, if the loop ran at all.
\<close>

fun adopt :: "int \<Rightarrow> node list \<Rightarrow> node \<Rightarrow> py_error + (node \<times> int option)" where
  "adopt i [] maxObj = Inr (maxObj, None)"
| "adopt i (child # rest) maxObj =
     (if GetChild maxObj i \<noteq> None then Inl AssertionError
      else
        (let maxObj' = set_children (children maxObj @ [set_ID i child]) maxObj in
         if rest = [] then Inr (maxObj', Some i) else adopt (i + 1) rest maxObj'))"

text \<open>
  The merge above the last level. \<open>toStart = i + 1\<close> reads the loop variable after the loop:
  unbound if no absorbed node so far had a child.
\<close>

fun merge_plain :: "node \<Rightarrow> node \<Rightarrow> int \<Rightarrow> int option \<Rightarrow> node list \<Rightarrow> py_error + (node \<times> node)" where
  "merge_plain self maxObj toStart i [] = Inr (self, maxObj)"
| "merge_plain self maxObj toStart i (nd # rest) =
     ebind (adopt toStart (children nd) maxObj) (\<lambda>(maxObj', li).
       case (case li of None \<Rightarrow> i | Some j \<Rightarrow> Some j) of
         None \<Rightarrow> Inl UnboundLocalError
       | Some j \<Rightarrow>
           ebind (DeleteChild (nID nd) self) (\<lambda>self'.
             merge_plain self' maxObj' (j + 1) (Some j) rest))"

text \<open>
  \<open>ValidateNames\<close> overwrites \<open>_wgst\<close> position by position with the ids from the root.
\<close>

definition ValidateNames :: "int list \<Rightarrow> node \<Rightarrow> py_error + node" where
  "ValidateNames p n =
     (case named n of
        None \<Rightarrow> Inl AttributeError
      | Some d \<Rightarrow>
          if length p \<le> length (wgst d)
          then Inr (set_named (Some (d\<lparr>wgst := p @ drop (length p) (wgst d)\<rparr>)) n)
          else Inl IndexError)"

fun finalize_keys :: "node \<Rightarrow> (string \<times> int list) list \<Rightarrow> int list \<Rightarrow> string list
    \<Rightarrow> py_error + (string \<times> int list) list" where
  "finalize_keys rt nms w [] = Inr nms"
| "finalize_keys rt nms w (key # keys) =
     ebind (FinalizeName rt nms key w) (\<lambda>nms'. finalize_keys rt nms' w keys)"

text \<open>The closing loop of \<open>MergeNodes\<close> over the named nodes below \<open>maxObj\<close>.\<close>

fun validate_all :: "(int list \<times> node) list \<Rightarrow> node \<Rightarrow> (string \<times> int list) list
    \<Rightarrow> py_error + (node \<times> (string \<times> int list) list)" where
  "validate_all [] rt nms = Inr (rt, nms)"
| "validate_all ((p, n) # rest) rt nms =
     ebind (ValidateNames p n) (\<lambda>n'.
       let rt' = update_at p (\<lambda>_. n') rt in
       ebind (GetNamedChildren n') (\<lambda>keys.
       ebind (finalize_keys rt' nms (case named n' of None \<Rightarrow> [] | Some d \<Rightarrow> wgst d) keys) (\<lambda>nms'.
         validate_all rest rt' nms')))"

text \<open>
  \<open>MergeNodes\<close>, called on the node at \<open>cur\<close> with the ids \<open>nodes\<close>. The candidates are the
  children with these ids, each once; the survivor \<open>maxObj\<close> is the first of the largest. The
  result is the new root, the new names and the id of the survivor. (\<open>RuntimeError\<close> stands
  for a \<open>cur\<close> that leads nowhere, which the callers never produce.)
\<close>

definition MergeNodes :: "int \<Rightarrow> node \<Rightarrow> int list \<Rightarrow> (string \<times> int list) list \<Rightarrow> int list
    \<Rightarrow> py_error + (node \<times> (string \<times> int list) list \<times> int)" where
  "MergeNodes depth rt cur nms nodes =
     (case node_at rt cur of
        None \<Rightarrow> Inl RuntimeError
      | Some self \<Rightarrow>
          ebind (traverse (\<lambda>i. case GetChild self i of None \<Rightarrow> Inl AttributeError | Some c \<Rightarrow> Inr c)
                   (dedup_first nodes)) (\<lambda>minObjs.
          ebind (py_max_by node_size minObjs) (\<lambda>maxObj.
          let others = filter (\<lambda>n. nID n \<noteq> nID maxObj) minObjs in
          ebind (if nlevel self = depth - 1 then merge_named self maxObj others
                 else ebind (py_max (map nID (children maxObj))) (\<lambda>mx.
                        merge_plain self maxObj (mx + 1) None others)) (\<lambda>(self', maxObj').
          let self'' = set_children (replace_first (nID maxObj) maxObj' (children self')) self';
              rt' = update_at cur (\<lambda>_. self'') rt
          in ebind (validate_all (DFSNamed (cur @ [nID maxObj]) maxObj') rt' nms) (\<lambda>(rt'', nms').
               Inr (rt'', nms', nID maxObj))))))"

subsection \<open>The placement loop\<close>

text \<open>
  The state of one call of \<open>CalcName\<close>: the tree's root and names, the memo table, the list
  \<open>patternName\<close>, and \<open>currentNode\<close> as the ids leading to it from the root. \<open>patternName\<close> is
  the very list that \<open>GetName\<close> stored in the names under the new key, so appending to it
  changes the names as well; \<open>c_alias\<close> records that this still is the case (\<open>FinalizeName\<close>
  on the new key would store another list there).
\<close>

record cstate =
  c_root :: node
  c_names :: "(string \<times> int list) list"
  c_dists :: dists
  c_pattern :: "int list"
  c_alias :: bool
  c_cur :: "int list"

definition append_pattern :: "string \<Rightarrow> int \<Rightarrow> cstate \<Rightarrow> cstate" where
  "append_pattern u v s =
     (let pat = c_pattern s @ [v] in
      s\<lparr>c_pattern := pat,
        c_names := (if c_alias s then AList.update u pat (c_names s) else c_names s)\<rparr>)"

text \<open>
  The loop over the children of \<open>currentNode\<close>: the children as the loop leaves them (caches
  filled), the names (\<open>GetPart\<close> is a \<open>setdefault\<close>), the memo table, the partial names added
  to the set \<open>closestClusters\<close> in the order of insertion, and \<open>matchingNodes\<close>.
\<close>

fun match_children :: "AlleleCalls \<Rightarrow> string list \<Rightarrow> string \<Rightarrow> rat \<Rightarrow> rat \<Rightarrow> nat
    \<Rightarrow> node list \<Rightarrow> (string \<times> int list) list \<Rightarrow> dists
    \<Rightarrow> py_error + (node list \<times> (string \<times> int list) list \<times> dists \<times> int list list \<times> node list)" where
  "match_children alleles namedEntries u threshold corePercent level [] nms ds =
     Inr ([], nms, ds, [], [])"
| "match_children alleles namedEntries u threshold corePercent level (nd # rest) nms ds =
     ebind (IsInCluster alleles namedEntries ds u nd threshold corePercent) (\<lambda>(b, nd', ds').
       if b then
         (case preferred nd' of
            None \<Rightarrow> Inl KeyError
          | Some keyToGet \<Rightarrow>
              (let (name, nms') = setdefault nms keyToGet in
               ebind (match_children alleles namedEntries u threshold corePercent level rest nms' ds')
                 (\<lambda>(cs, nms'', ds'', closest, matching).
                    Inr (nd' # cs, nms'', ds'', take level name # closest, nd' # matching))))
       else
         ebind (match_children alleles namedEntries u threshold corePercent level rest nms ds')
           (\<lambda>(cs, nms'', ds'', closest, matching).
              Inr (nd' # cs, nms'', ds'', closest, matching)))"

text \<open>\<open>len(closestClusters) == 1\<close>.\<close>

definition single_match :: "AlleleCalls \<Rightarrow> string list \<Rightarrow> string \<Rightarrow> int list list \<Rightarrow> node list
    \<Rightarrow> cstate \<Rightarrow> py_error + cstate" where
  "single_match alleles namedEntries u closest matching s =
     (case (closest, matching) of
        (pattern # _, m # _) \<Rightarrow>
          if pattern = [] then Inl IndexError
          else
            (let s1 = append_pattern u (last pattern) s in
             case preferred m of
               None \<Rightarrow> Inl KeyError
             | Some founder \<Rightarrow>
                 ebind (GetDistanceToNamedEntry alleles namedEntries (c_dists s1) u founder)
                   (\<lambda>(d, ds).
                      let m1 = set_diameter (max (diameter m) d) m;
                          (ks, m2) = EntryKeys m1;
                          m3 = set_entryKeys (Some (ks @ [u])) m2
                      in Inr (s1\<lparr>c_root := update_at (c_cur s1 @ [nID m]) (\<lambda>_. m3) (c_root s1),
                                 c_dists := ds,
                                 c_cur := c_cur s1 @ [nID m]\<rparr>)))
      | _ \<Rightarrow> Inl IndexError)"

text \<open>
  \<open>len(closestClusters) == 0\<close>: \<open>NewChildNode\<close>, a \<open>NamedNode\<close> when the parent is at the last
  level but one (its \<open>_wgst\<close> is the path from the root), then the three assignments.
\<close>

definition NewChildNode :: "int \<Rightarrow> int list \<Rightarrow> node \<Rightarrow> node \<times> node" where
  "NewChildNode depth path self =
     (let nextCluster = (case children self of [] \<Rightarrow> 1
                          | c # cs \<Rightarrow> fold max (map nID cs) (nID c) + 1);
          child = Node nextCluster (nlevel self + 1) [] 0 None None
                    (if nlevel self = depth - 1
                     then Some \<lparr>wgst = path @ [nextCluster], namedChildren = []\<rparr>
                     else None)
      in (set_children (children self @ [child]) self, child))"

definition no_match :: "string \<Rightarrow> int \<Rightarrow> node \<Rightarrow> cstate \<Rightarrow> py_error + cstate" where
  "no_match u depth currentNode s =
     (let (self', child) = NewChildNode depth (c_cur s) currentNode;
          s1 = append_pattern u (nID child) s;
          child' = set_entryKeys (Some [u]) (set_preferred (Some u) (set_diameter 0 child));
          self'' = set_children (replace_first (nID child) child' (children self')) self'
      in Inr (s1\<lparr>c_root := update_at (c_cur s1) (\<lambda>_. self'') (c_root s1),
                 c_cur := c_cur s1 @ [nID child]\<rparr>))"

text \<open>
  More than one element in \<open>closestClusters\<close>. The nodes are first read for their
  \<open>EntryKeys\<close> (which fills caches), the first of the largest gives founder and diameter, the
  others contribute their largest distance to that founder.
\<close>

fun other_diameters :: "AlleleCalls \<Rightarrow> string list \<Rightarrow> string \<Rightarrow> nat \<Rightarrow> nat
    \<Rightarrow> (string list \<times> node) list \<Rightarrow> rat \<Rightarrow> dists \<Rightarrow> py_error + (rat \<times> dists)" where
  "other_diameters alleles namedEntries newPreferred nodePickIdx i [] diam ds = Inr (diam, ds)"
| "other_diameters alleles namedEntries newPreferred nodePickIdx i ((keys, nd) # rest) diam ds =
     (if i = nodePickIdx
      then other_diameters alleles namedEntries newPreferred nodePickIdx (Suc i) rest diam ds
      else
        ebind (GetMaxDistanceToNode alleles namedEntries ds newPreferred keys) (\<lambda>(mx, ds').
          other_diameters alleles namedEntries newPreferred nodePickIdx (Suc i) rest
            (max diam mx) ds'))"

definition first_index :: "('a \<Rightarrow> bool) \<Rightarrow> 'a list \<Rightarrow> nat" where
  "first_index P xs = length (takeWhile (\<lambda>x. \<not> P x) xs)"

definition write_back :: "node list \<Rightarrow> node \<Rightarrow> node" where
  "write_back ms self = fold (\<lambda>m n. set_children (replace_first (nID m) m (children n)) n) ms self"

definition merge_match :: "(int list list \<Rightarrow> int list list) \<Rightarrow> AlleleCalls \<Rightarrow> string list \<Rightarrow> string
    \<Rightarrow> int \<Rightarrow> int list list \<Rightarrow> node list \<Rightarrow> node \<Rightarrow> cstate \<Rightarrow> py_error + cstate" where
  "merge_match set_iter alleles namedEntries u depth closest matching currentNode s =
     (let withKeys = map EntryKeys matching in
      ebind (py_max (map (\<lambda>(ks, m). length ks) withKeys)) (\<lambda>maxSize.
      let nodePickIdx = first_index (\<lambda>(ks, m). length ks = maxSize) withKeys in
      ebind (getitem withKeys nodePickIdx) (\<lambda>(pks, pick).
      case preferred pick of
        None \<Rightarrow> Inl TypeError
      | Some newPreferred \<Rightarrow>
          ebind (GetDistanceToNamedEntry alleles namedEntries (c_dists s) u newPreferred)
            (\<lambda>(d, ds).
          ebind (other_diameters alleles namedEntries newPreferred nodePickIdx 0 withKeys
                   (max (diameter pick) d) ds) (\<lambda>(diam, ds').
          let entryKeys = u # concat (map fst withKeys) in
          ebind (traverse (\<lambda>c. if c = [] then Inl IndexError else Inr (last c)) (set_iter closest))
            (\<lambda>toMerge.
          let self' = write_back (map snd withKeys) currentNode;
              rt = update_at (c_cur s) (\<lambda>_. self') (c_root s)
          in ebind (MergeNodes depth rt (c_cur s) (c_names s) toMerge) (\<lambda>(rt', nms', mid).
             case node_at rt' (c_cur s @ [mid]) of
               None \<Rightarrow> Inl RuntimeError
             | Some maxObj \<Rightarrow>
                 (let s1 = append_pattern u mid
                             (s\<lparr>c_names := nms',
                                c_alias := (c_alias s \<and> u \<notin> set (iter_entrykeys maxObj))\<rparr>);
                      maxObj' = set_entryKeys (Some entryKeys)
                                  (set_diameter diam (set_preferred (Some newPreferred) maxObj))
                  in Inr (s1\<lparr>c_root := update_at (c_cur s @ [mid]) (\<lambda>_. maxObj') rt',
                             c_dists := ds',
                             c_cur := c_cur s @ [mid]\<rparr>)))))))))"

text \<open>
  One round of the loop over the thresholds. \<open>set_iter\<close> is the order in which Python
  iterates the set \<open>closestClusters\<close>, as a function of the sequence of insertions: the
  language leaves it open.
\<close>

definition CalcName_level :: "(int list list \<Rightarrow> int list list) \<Rightarrow> AlleleCalls \<Rightarrow> string list
    \<Rightarrow> string \<Rightarrow> rat \<Rightarrow> int \<Rightarrow> nat \<Rightarrow> rat \<Rightarrow> cstate \<Rightarrow> py_error + cstate" where
  "CalcName_level set_iter alleles namedEntries u corePercent depth level threshold s =
     (case node_at (c_root s) (c_cur s) of
        None \<Rightarrow> Inl RuntimeError
      | Some currentNode \<Rightarrow>
          ebind (match_children alleles namedEntries u threshold corePercent level
                   (children currentNode) (c_names s) (c_dists s))
            (\<lambda>(cs, nms, ds, closest, matching).
               let cn = set_children cs currentNode;
                   s1 = s\<lparr>c_root := update_at (c_cur s) (\<lambda>_. cn) (c_root s),
                          c_names := nms, c_dists := ds\<rparr>;
                   n = length (remdups closest)
               in if n = 1 then single_match alleles namedEntries u closest matching s1
                  else if n = 0 then no_match u depth cn s1
                  else merge_match set_iter alleles namedEntries u depth closest matching cn s1))"

fun CalcName_loop :: "(int list list \<Rightarrow> int list list) \<Rightarrow> AlleleCalls \<Rightarrow> string list
    \<Rightarrow> string \<Rightarrow> rat \<Rightarrow> int \<Rightarrow> nat \<Rightarrow> rat list \<Rightarrow> cstate \<Rightarrow> py_error + cstate" where
  "CalcName_loop set_iter alleles namedEntries u corePercent depth level [] s = Inr s"
| "CalcName_loop set_iter alleles namedEntries u corePercent depth level (threshold # rest) s =
     ebind (CalcName_level set_iter alleles namedEntries u corePercent depth level threshold s)
       (CalcName_loop set_iter alleles namedEntries u corePercent depth (Suc level) rest)"

text \<open>
  \<open>CalcName\<close>. The thresholds are sorted largest first (in place, which no caller observes),
  the new key must have no name yet, and after the loop the node reached must be a
  \<open>NamedNode\<close> whose code is \<open>patternName\<close>.
\<close>

definition CalcName :: "(int list list \<Rightarrow> int list list) \<Rightarrow> string list \<Rightarrow> tree \<Rightarrow> AlleleCalls
    \<Rightarrow> string \<Rightarrow> rat list \<Rightarrow> rat \<Rightarrow> py_error + tree" where
  "CalcName set_iter namedEntries t alleles unNamedEntry thresholds corePercent =
     (let (patternName, t1) = GetName t unNamedEntry in
      if patternName \<noteq> [] then Inl AssertionError
      else
        ebind (CalcName_loop set_iter alleles namedEntries unNamedEntry corePercent (DEPTH t) 1
                 (rev (sort thresholds))
                 \<lparr>c_root = troot t1, c_names = names t1, c_dists = Map.empty,
                  c_pattern = [], c_alias = True, c_cur = []\<rparr>) (\<lambda>s.
          case node_at (c_root s) (c_cur s) of
            None \<Rightarrow> Inl RuntimeError
          | Some currentNode \<Rightarrow>
              (if named currentNode = None then Inl AssertionError
               else
                 ebind (AddNamedChild unNamedEntry currentNode) (\<lambda>currentNode'.
                   if (case named currentNode' of None \<Rightarrow> [] | Some d \<Rightarrow> wgst d) = c_pattern s
                   then Inr (t\<lparr>troot := update_at (c_cur s) (\<lambda>_. currentNode') (c_root s),
                               names := c_names s\<rparr>)
                   else Inl AssertionError))))"

subsection \<open>DoCalc: the quality filter and the loop over the new profiles\<close>

text \<open>
  \<open>round(x, 2)\<close> of a float: Python rounds the exact value of the double \<open>x\<close> to two
  decimals, a tie going to the even digit, and returns the double nearest to that decimal
  number. Here \<open>x\<close> is the quotient of two integers, itself rounded to a double first.
\<close>

definition py_round2 :: "rat \<Rightarrow> rat" where
  "py_round2 x = to_double (of_int (round_half_even (to_double x * 100)) / 100)"

definition present_ratio :: "int list \<Rightarrow> rat" where
  "present_ratio calls = of_nat (length calls - count_list calls 0) / of_nat (length calls)"

text \<open>
  \<open>CheckCore\<close>; \<open>self._minPres\<close> is a float of the script and is read through \<open>to_double\<close>.
\<close>

definition CheckCore :: "rat \<Rightarrow> int list \<Rightarrow> py_error + int list option" where
  "CheckCore minPres calls =
     (if length calls = 0 then Inl ZeroDivisionError
      else if py_round2 (present_ratio calls) < to_double minPres then Inr None
      else Inr (Some calls))"

text \<open>The fields of \<open>Calculator\<close> that the loop reads and writes.\<close>

record Calculator =
  calc_tree :: tree
  calc_alleleCalls :: AlleleCalls
  calc_thresholds :: "rat list"
  calc_minPres :: rat
  calc_newKeys :: "string set"
  calc_belowQC :: "(string \<times> string list) list"

text \<open>\<open>self._belowQC[key].append(reason)\<close> on a \<open>defaultdict(list)\<close>.\<close>

definition belowQC_append :: "(string \<times> string list) list \<Rightarrow> string \<Rightarrow> string
    \<Rightarrow> (string \<times> string list) list" where
  "belowQC_append d key reason =
     AList.update key ((case map_of d key of None \<Rightarrow> [] | Some rs \<Rightarrow> rs) @ [reason]) d"

text \<open>
  The body of the loop \<open>for i, (key, calls) in enumerate(newProfiles.items())\<close>, on the
  calculator and the local list \<open>namedEntries\<close>.
\<close>

definition DoCalc_entry :: "(int list list \<Rightarrow> int list list) \<Rightarrow> string \<times> int list
    \<Rightarrow> Calculator \<times> string list \<Rightarrow> py_error + (Calculator \<times> string list)" where
  "DoCalc_entry set_iter entry st =
     (let (key, calls) = entry; (c, namedEntries) = st in
      if HasName (calc_tree c) key then
        (if \<not> HasKey (calc_alleleCalls c) key then
           ebind (CheckCore (calc_minPres c) calls) (\<lambda>r.
             case r of
               None \<Rightarrow> Inr (c, namedEntries)
             | Some _ \<Rightarrow>
                 ebind (Add (calc_alleleCalls c) key calls) (\<lambda>ac.
                   Inr (c\<lparr>calc_alleleCalls := ac\<rparr>, namedEntries)))
         else Inr (c, namedEntries))
      else
        (let c1 = c\<lparr>calc_newKeys := insert key (calc_newKeys c)\<rparr> in
         ebind (CheckCore (calc_minPres c1) calls) (\<lambda>eCalls.
           case eCalls of
             None \<Rightarrow>
               Inr (c1\<lparr>calc_belowQC := belowQC_append (calc_belowQC c1) key ''CORE''\<rparr>,
                    namedEntries)
           | Some e \<Rightarrow>
               ebind (Add (calc_alleleCalls c1) key e) (\<lambda>ac.
               ebind (CalcName set_iter namedEntries (calc_tree c1) ac key
                        (calc_thresholds c1) (calc_minPres c1)) (\<lambda>t.
                 Inr (c1\<lparr>calc_alleleCalls := ac, calc_tree := t\<rparr>,
                      if HasName t key then namedEntries @ [key] else namedEntries))))))"

subsection \<open>DoCalc: the integrity check\<close>

text \<open>
  The check after loading, with the lines it sends to \<open>log_error\<close> (depth and text) and the
  exception it ends in, if any. It compares the keys of the names with the keys of
  \<open>self._alleleCalls._alleleCalls\<close>, the hot dictionary.
\<close>

definition DoCalc_integrity :: "tree \<Rightarrow> AlleleCalls \<Rightarrow> (nat \<times> string) list \<times> py_error option" where
  "DoCalc_integrity t ac =
     (let treeKeys = map fst (names t); callKeys = map fst (alleleCalls ac) in
      if list_all (\<lambda>alleleKey. alleleKey \<in> set treeKeys) callKeys
         \<and> list_all (\<lambda>treeKey. treeKey \<in> set callKeys) treeKeys
      then ([], None)
      else
        (let keysInTreeNotCalls = filter (\<lambda>alleleKey. alleleKey \<notin> set treeKeys) callKeys;
             keysInCallsNotTree = filter (\<lambda>treeKey. treeKey \<notin> set callKeys) treeKeys
         in ((if keysInTreeNotCalls \<noteq> []
              then (1, ''Keys in tree file missing from calls:'') # map (Pair 2) keysInTreeNotCalls
              else [])
             @ (if keysInCallsNotTree \<noteq> []
                then (1, ''Keys in calls file(s) missing from tree file:'')
                       # map (Pair 2) keysInCallsNotTree
                else []),
             Some AssertionError)))"

text \<open>The keys of the profile store, both tiers, as \<open>HasKey\<close> sees them.\<close>

definition store_keys :: "AlleleCalls \<Rightarrow> string set" where
  "store_keys ac = fst ` set (index ac) \<union> fst ` set (alleleCalls ac)"

subsection \<open>The run controller and the lock file\<close>

text \<open>
  Of the file system only the lock file matters here. \<open>DoCalc\<close> and \<open>Setup\<close> never touch it,
  so each enters as its outcome: \<open>None\<close> when it returns, \<open>Some e\<close> when it raises. A function
  that can raise returns the exception, if any, beside the world it leaves.
\<close>

record world =
  lock_exists :: bool

definition os_remove_lock :: "world \<Rightarrow> py_error option \<times> world" where
  "os_remove_lock w =
     (if lock_exists w then (None, w\<lparr>lock_exists := False\<rparr>) else (Some IOError, w))"

text \<open>\<open>DoRefresh\<close>: \<open>os.remove\<close> inside \<open>try\<close> with a bare \<open>except: pass\<close>.\<close>

definition DoRefresh :: "world \<Rightarrow> world" where
  "DoRefresh w = snd (os_remove_lock w)"

text \<open>
  \<open>RunCalc\<close>: \<open>try: DoCalc\<close>, \<open>except:\<close> log and go on, \<open>else: os.remove(lockfile_path)\<close>.
\<close>

definition RunCalc :: "py_error option \<Rightarrow> world \<Rightarrow> py_error option \<times> world" where
  "RunCalc DoCalc_outcome w =
     (case DoCalc_outcome of
        Some e \<Rightarrow> (None, w)
      | None \<Rightarrow> os_remove_lock w)"

definition Run :: "py_error option \<Rightarrow> world \<Rightarrow> py_error option \<times> world" where
  "Run DoCalc_outcome w =
     (case RunCalc DoCalc_outcome w of
        (Some e, w') \<Rightarrow> (Some e, w')
      | (None, w') \<Rightarrow> (None, DoRefresh w'))"

text \<open>
  \<open>Main\<close>: everything is inside one \<open>try\<close> whose \<open>except\<close> logs; what remains is the world.
\<close>

definition Main :: "py_error option \<Rightarrow> py_error option \<Rightarrow> world \<Rightarrow> world" where
  "Main Setup_outcome DoCalc_outcome w =
     (if lock_exists w then w
      else
        (let w1 = w\<lparr>lock_exists := True\<rparr> in
         case Setup_outcome of
           Some e \<Rightarrow> w1
         | None \<Rightarrow> snd (Run DoCalc_outcome w1)))"

subsection \<open>The specification of the cluster test\<close>

text \<open>
  The distance between two keys, computed afresh from the store, in the argument order the
  source uses, and the same as a plain number for keys that have profiles.
\<close>

definition profile_dist :: "AlleleCalls \<Rightarrow> string \<Rightarrow> string \<Rightarrow> py_error + rat" where
  "profile_dist alleles a b =
     ebind (GetCalls alleles a) (\<lambda>va.
     ebind (GetCalls alleles b) (\<lambda>vb.
     ebind (GetDistance_calls va vb) (\<lambda>q. Inr (to_double q))))"

definition key_dist :: "AlleleCalls \<Rightarrow> string \<Rightarrow> string \<Rightarrow> rat" where
  "key_dist alleles a b = (case profile_dist alleles a b of Inr d \<Rightarrow> d | Inl e \<Rightarrow> 100)"

text \<open>The key has a hot profile of length \<open>L\<close>.\<close>

definition has_profile :: "AlleleCalls \<Rightarrow> nat \<Rightarrow> string \<Rightarrow> bool" where
  "has_profile alleles L k = (case GetCalls alleles k of Inr (Some p) \<Rightarrow> length p = L | _ \<Rightarrow> False)"

text \<open>
  The predicate in the words of the specification, its arithmetic being that of floats:
  \<open>d - diameter - 2 (100 - 100 min_present) > \<tau>\<close>, every operation rounded.
\<close>

definition InCluster_spec :: "(string \<Rightarrow> string \<Rightarrow> rat) \<Rightarrow> string \<Rightarrow> string \<Rightarrow> rat \<Rightarrow> string list
    \<Rightarrow> rat \<Rightarrow> rat \<Rightarrow> bool" where
  "InCluster_spec dst key founder diam members \<tau> min_present =
     (let d = dst key founder in
      if d \<le> to_double \<tau> then True
      else if fsub (fsub d (to_double diam)) (fmul 2 (fsub 100 (fmul 100 (to_double min_present))))
                > to_double \<tau>
      then False
      else (\<exists>k \<in> set members. dst key k \<le> to_double \<tau>))"

text \<open>
  The invariant of the memo table: every row has one entry per named key, and an entry that
  is not the sentinel \<open>-1\<close> is the distance it stands for.
\<close>

definition dists_ok :: "AlleleCalls \<Rightarrow> string list \<Rightarrow> dists \<Rightarrow> bool" where
  "dists_ok alleles namedEntries ds =
     (\<forall>u row. ds u = Some row \<longrightarrow>
        length row = length namedEntries
        \<and> (\<forall>k i. index_of namedEntries k = Some i \<longrightarrow> 0 \<le> row ! i
              \<longrightarrow> profile_dist alleles k u = Inr (row ! i)))"

text \<open>A store and a level-1 cluster with two terminal nodes, for the examples.\<close>

definition ex_store :: AlleleCalls where
  "ex_store = \<lparr>alleleCalls = [(''K1'', [1, 1, 1, 1, 1]), (''K2'', [1, 1, 1, 1, 2]),
                               (''K5'', [1, 1, 1, 2, 2])],
               index = [], matrices = []\<rparr>"

definition ex_node :: node where
  "ex_node = Node 1 1
     [Node 1 2 [] 0 (Some ''K1'') None (Some \<lparr>wgst = [1, 1], namedChildren = [''K1'']\<rparr>),
      Node 2 2 [] 0 (Some ''K2'') None (Some \<lparr>wgst = [1, 2], namedChildren = [''K2'']\<rparr>)]
     20 (Some ''K1'') None None"

text \<open>
  A calculator before its first profile, with the default cutoff, and a profile with 18 of
  its 19 loci called.
\<close>

definition qc_calc :: Calculator where
  "qc_calc = \<lparr>calc_tree = \<lparr>troot = Node 1 0 [] 0 None None None, names = [], DEPTH = 2\<rparr>,
              calc_alleleCalls = \<lparr>alleleCalls = [], index = [], matrices = []\<rparr>,
              calc_thresholds = [50, 10], calc_minPres = 95 / 100,
              calc_newKeys = {}, calc_belowQC = []\<rparr>"

definition calls19 :: "int list" where
  "calls19 = [1,1,1,1,1,1,1,1,1,1,1,1,1,1,1,1,1,1,0]"

text \<open>
  \<open>x\<close> is the first of the largest elements of \<open>xs\<close> under \<open>f\<close>: nothing in \<open>xs\<close> is larger,
  and everything before \<open>x\<close> is smaller.
\<close>

definition first_largest :: "('a \<Rightarrow> nat) \<Rightarrow> 'a list \<Rightarrow> 'a \<Rightarrow> bool" where
  "first_largest f xs x =
     (\<exists>i < length xs. xs ! i = x \<and> (\<forall>j < length xs. f (xs ! j) \<le> f x)
        \<and> (\<forall>j < i. f (xs ! j) < f x))"

text \<open>
  The choice of the specification: a matching child with the largest member count, and with
  the smallest id among those.
\<close>

definition spec_anchor :: "node list \<Rightarrow> node \<Rightarrow> bool" where
  "spec_anchor matching a =
     (a \<in> set matching
      \<and> list_all (\<lambda>m. length (fst (EntryKeys m)) < length (fst (EntryKeys a))
                       \<or> (length (fst (EntryKeys m)) = length (fst (EntryKeys a))
                           \<and> nID a \<le> nID m)) matching)"

text \<open>
  The loop \<open>for i, (key, calls) in enumerate(newProfiles.items())\<close> of \<open>DoCalc\<close>.
\<close>

fun DoCalc_loop :: "(int list list \<Rightarrow> int list list) \<Rightarrow> (string \<times> int list) list
    \<Rightarrow> Calculator \<times> string list \<Rightarrow> py_error + (Calculator \<times> string list)" where
  "DoCalc_loop set_iter [] st = Inr st"
| "DoCalc_loop set_iter (entry # rest) st =
     ebind (DoCalc_entry set_iter entry st) (DoCalc_loop set_iter rest)"

text \<open>
  Six profiles that are pairwise more than 25 percent apart, and a seventh 20 percent from
  the first and from the sixth; a calculator with the thresholds 25 and 10 before its first
  profile; the level-1 cluster \<open>i\<close> that the placement of a first key makes.
\<close>

definition merge_profiles :: "(string \<times> int list) list" where
  "merge_profiles = [(''K1'', [1, 1, 1, 1, 1]), (''K2'', [2, 2, 2, 2, 2]),
                     (''K3'', [3, 3, 3, 3, 3]), (''K4'', [4, 4, 4, 4, 4]),
                     (''K5'', [5, 5, 5, 5, 5]), (''K6'', [1, 1, 1, 2, 2])]"

definition merge_calc :: Calculator where
  "merge_calc = \<lparr>calc_tree = \<lparr>troot = Node 1 0 [] 0 None None None, names = [], DEPTH = 2\<rparr>,
                 calc_alleleCalls = \<lparr>alleleCalls = [], index = [], matrices = []\<rparr>,
                 calc_thresholds = [25, 10], calc_minPres = 6 / 10,
                 calc_newKeys = {}, calc_belowQC = []\<rparr>"

definition merge_store :: AlleleCalls where
  "merge_store = \<lparr>alleleCalls = merge_profiles @ [(''K7'', [1, 1, 1, 1, 2])],
                  index = [], matrices = []\<rparr>"

definition single_cluster :: "int \<Rightarrow> string \<Rightarrow> node" where
  "single_cluster i key = Node i 1
     [Node 1 2 [] 0 (Some key) (Some [key]) (Some \<lparr>wgst = [i, 1], namedChildren = [key]\<rparr>)]
     0 (Some key) (Some [key]) None"

definition merge_tree :: tree where
  "merge_tree =
     \<lparr>troot = Node 1 0
        [single_cluster 1 ''K1'', single_cluster 2 ''K2'', single_cluster 3 ''K3'',
         single_cluster 4 ''K4'', single_cluster 5 ''K5'', single_cluster 6 ''K6'']
        0 None None None,
      names = [(''K1'', [1, 1]), (''K2'', [2, 1]), (''K3'', [3, 1]),
               (''K4'', [4, 1]), (''K5'', [5, 1]), (''K6'', [6, 1])],
      DEPTH = 2\<rparr>"

definition merged_tree :: tree where
  "merged_tree =
     \<lparr>troot = Node 1 0
        [single_cluster 2 ''K2'', single_cluster 3 ''K3'', single_cluster 4 ''K4'',
         single_cluster 5 ''K5'',
         Node 6 1
           [Node 1 2 [] 0 (Some ''K6'') (Some [''K6''])
              (Some \<lparr>wgst = [6, 1], namedChildren = [''K6'']\<rparr>),
            Node 2 2 [] 0 (Some ''K1'') (Some [''K1''])
              (Some \<lparr>wgst = [6, 2], namedChildren = [''K1'']\<rparr>),
            Node 3 2 [] 0 (Some ''K7'') (Some [''K7''])
              (Some \<lparr>wgst = [6, 3], namedChildren = [''K7'']\<rparr>)]
           40 (Some ''K1'') (Some [''K7'', ''K1'', ''K6'']) None]
        0 None None None,
      names = [(''K1'', [6, 2]), (''K2'', [2, 1]), (''K3'', [3, 1]), (''K4'', [4, 1]),
               (''K5'', [5, 1]), (''K6'', [6, 1]), (''K7'', [6, 3])],
      DEPTH = 2\<rparr>"

definition merge_state :: cstate where
  "merge_state = \<lparr>c_root = troot merge_tree,
                   c_names = names merge_tree @ [(''K7'', [])],
                   c_dists = Map.empty, c_pattern = [], c_alias = True, c_cur = []\<rparr>"

section \<open>Properties\<close>

subsection \<open>The distance function\<close>

lemma traverse_total:
  "(\<And>x. x \<in> set xs \<Longrightarrow> f x = Inr (g x)) \<Longrightarrow> traverse f xs = Inr (map g xs)"
  by (induction xs) simp_all

lemma length_filter_upt_card:
  "length (filter P [0..<n]) = card {i. i < n \<and> P i}"
proof -
  have "distinct (filter P [0..<n])" by simp
  then have "card (set (filter P [0..<n])) = length (filter P [0..<n])"
    by (rule distinct_card)
  moreover have "set (filter P [0..<n]) = {i. i < n \<and> P i}" by auto
  ultimately show ?thesis by simp
qed

lemma sum_bools_map_upt:
  "sum_bools (map P [0..<n]) = card {i. i < n \<and> P i}"
  unfolding sum_bools_def filter_map length_map o_def
  by (rule length_filter_upt_card)

lemma sum_kept_map_upt:
  "sum_kept (map Q [0..<n]) = card {i. i < n \<and> Q i = Some True}"
  unfolding sum_kept_def filter_map length_map o_def
  by (rule length_filter_upt_card)

lemma common_at_eq:
  "i < length p1 \<Longrightarrow> i < length p2 \<Longrightarrow>
     common_at p1 p2 i = Inr (p1 ! i > 0 \<and> p2 ! i > 0)"
  by (simp add: common_at_def getitem_def ebind_def)

lemma diff_at_eq:
  "i < length p1 \<Longrightarrow> i < length p2 \<Longrightarrow>
     diff_at p1 p2 i =
       Inr (if p1 ! i \<noteq> 0 \<and> p2 ! i \<noteq> 0 then Some (p1 ! i \<noteq> p2 ! i) else None)"
  by (simp add: diff_at_def getitem_def ebind_def)

lemma GetDistance_counts:
  assumes "length p1 \<le> length p2"
  shows "GetDistance p1 p2 =
           Inr (if nCommon p1 p2 \<noteq> 0
                then 100 * of_nat (nDiff p1 p2) / of_nat (nCommon p1 p2) else 100)"
proof -
  have c: "traverse (common_at p1 p2) [0..<length p1] =
             Inr (map (\<lambda>i. p1 ! i > 0 \<and> p2 ! i > 0) [0..<length p1])"
    using assms by (intro traverse_total) (simp add: common_at_eq)
  have d: "traverse (diff_at p1 p2) [0..<length p1] =
             Inr (map (\<lambda>i. if p1 ! i \<noteq> 0 \<and> p2 ! i \<noteq> 0 then Some (p1 ! i \<noteq> p2 ! i) else None)
                    [0..<length p1])"
    using assms by (intro traverse_total) (simp add: diff_at_eq)
  have k: "{i. i < length p1 \<and>
               (if p1 ! i \<noteq> 0 \<and> p2 ! i \<noteq> 0 then Some (p1 ! i \<noteq> p2 ! i) else None) = Some True}
           = {i. i < length p1 \<and> p1 ! i \<noteq> 0 \<and> p2 ! i \<noteq> 0 \<and> p1 ! i \<noteq> p2 ! i}"
    by auto
  have cs: "sum_bools (map (\<lambda>i. p1 ! i > 0 \<and> p2 ! i > 0) [0..<length p1]) = nCommon p1 p2"
    unfolding nCommon_def by (rule sum_bools_map_upt)
  have ds: "sum_kept (map (\<lambda>i. if p1 ! i \<noteq> 0 \<and> p2 ! i \<noteq> 0 then Some (p1 ! i \<noteq> p2 ! i) else None)
                    [0..<length p1]) = nDiff p1 p2"
    unfolding nDiff_def k[symmetric] by (rule sum_kept_map_upt)
  show ?thesis
    by (simp add: GetDistance_def c d ebind_def cs ds Let_def)
qed

lemma nCommon_sym: "length p = length q \<Longrightarrow> nCommon p q = nCommon q p"
  unfolding nCommon_def by (rule arg_cong[where f = card]) auto

lemma nDiff_sym: "length p = length q \<Longrightarrow> nDiff p q = nDiff q p"
  unfolding nDiff_def by (rule arg_cong[where f = card]) auto

lemma is_profile_nth: "is_profile p \<Longrightarrow> i < length p \<Longrightarrow> (p ! i \<noteq> 0) = (0 < p ! i)"
  unfolding is_profile_def list_all_length by (auto simp: order_less_le)

lemma nCommon_common: "nCommon p1 p2 = common p1 p2"
  by (simp add: nCommon_def common_def)

lemma nDiff_diff:
  assumes "length p1 = length p2" "is_profile p1" "is_profile p2"
  shows "nDiff p1 p2 = diff p1 p2"
  unfolding nDiff_def diff_def
  by (rule arg_cong[where f = card]) (use assms is_profile_nth in auto)

text \<open>
  Negative entries are outside the data model, and there the two counts part: the filter of
  \<open>nDiff\<close> keeps a negative entry that \<open>nCommon\<close> does not count.
\<close>

lemma GetDistance_negative_entry: "GetDistance [- 1, 1] [2, 1] = Inr 100"
  by (simp add: GetDistance_def common_at_def diff_at_def getitem_def ebind_def
      sum_bools_def sum_kept_def upt_rec)

text \<open>
  Claim C1. For two profiles of equal length, \<open>GetDistance\<close> returns 100 when no position holds
  a positive entry in both (\<open>common = 0\<close>), and otherwise 100 times the number of positions
  where both entries are positive and unequal (\<open>diff\<close>) divided by \<open>common\<close>.
\<close>

theorem GetDistance_spec:
  assumes "length p1 = length p2" "is_profile p1" "is_profile p2"
  shows "GetDistance p1 p2 = Inr (spec_dist p1 p2)"
  using assms
  by (simp add: GetDistance_counts nCommon_common nDiff_diff spec_dist_def)

theorem GetDistance_spec_witness:
  "length [1, 1, 1, 1, 1 :: int] = length [1, 1, 1, 1, 2 :: int]
   \<and> is_profile [1, 1, 1, 1, 1] \<and> is_profile [1, 1, 1, 1, 2]
   \<and> GetDistance [1, 1, 1, 1, 1] [1, 1, 1, 1, 2] = Inr (spec_dist [1, 1, 1, 1, 1] [1, 1, 1, 1, 2])
   \<and> spec_dist [1, 1, 1, 1, 1] [1, 1, 1, 1, 2] = 20"
proof -
  have l: "length [1, 1, 1, 1, 1 :: int] = length [1, 1, 1, 1, 2 :: int]" by simp
  have a: "is_profile [1, 1, 1, 1, 1]" by (simp add: is_profile_def)
  have b: "is_profile [1, 1, 1, 1, 2]" by (simp add: is_profile_def)
  have v: "GetDistance [1, 1, 1, 1, 1] [1, 1, 1, 1, 2] = Inr 20"
    by (simp add: GetDistance_def common_at_def diff_at_def getitem_def ebind_def
        sum_bools_def sum_kept_def upt_rec)
  show ?thesis using GetDistance_spec [OF l a b] l a b v by simp
qed

text \<open>
  Claim C8. For equal-length profiles \<open>p\<close> and \<open>q\<close>, the distance from \<open>p\<close> to \<open>q\<close> equals
  the distance from \<open>q\<close> to \<open>p\<close>.
\<close>

theorem GetDistance_symmetric:
  "length p = length q \<Longrightarrow> GetDistance p q = GetDistance q p"
  by (simp add: GetDistance_counts nCommon_sym nDiff_sym)

theorem GetDistance_symmetric_witness:
  "length [1, 0, 3 :: int] = length [1, 2, 4 :: int]
   \<and> GetDistance [1, 0, 3] [1, 2, 4] = GetDistance [1, 2, 4] [1, 0, 3]
   \<and> GetDistance [1, 0, 3] [1, 2, 4] = Inr 50"
proof -
  have l: "length [1, 0, 3 :: int] = length [1, 2, 4 :: int]" by simp
  have v: "GetDistance [1, 0, 3] [1, 2, 4] = Inr 50"
    by (simp add: GetDistance_def common_at_def diff_at_def getitem_def ebind_def
        sum_bools_def sum_kept_def upt_rec)
  show ?thesis using GetDistance_symmetric [OF l] l v by simp
qed

text \<open>
  Claim C10. When both profiles have the same length, every position \<open>GetDistance\<close> reads is
  in bounds in both profiles and the function returns a value. The index range comes from the
  first profile alone, which is why the lengths have to agree: \<open>GetDistance_raises_iff\<close>
  below says exactly when a shorter second profile makes the function raise.
\<close>

theorem GetDistance_total:
  assumes "length p1 = length p2"
  shows "(\<forall>i < length p1. (\<exists>a. getitem p1 i = Inr a) \<and> (\<exists>b. getitem p2 i = Inr b))
         \<and> (\<exists>d. GetDistance p1 p2 = Inr d)"
  using assms by (simp add: GetDistance_counts getitem_def)

theorem GetDistance_total_witness:
  "length [0, 0, 7 :: int] = length [5, 0, 0 :: int]
   \<and> (\<exists>a. getitem [0, 0, 7 :: int] 2 = Inr a) \<and> (\<exists>b. getitem [5, 0, 0 :: int] 2 = Inr b)
   \<and> (\<exists>d. GetDistance [0, 0, 7] [5, 0, 0] = Inr d)"
proof -
  have l: "length [0, 0, 7 :: int] = length [5, 0, 0 :: int]" by simp
  have i: "2 < length [0, 0, 7 :: int]" by simp
  from GetDistance_total [OF l] i l show ?thesis by blast
qed

lemma GetDistance_short_second: "GetDistance [1, 1] [1] = Inl IndexError"
  by (simp add: GetDistance_def common_at_def diff_at_def getitem_def ebind_def
      sum_bools_def sum_kept_def upt_rec)

lemma traverse_Inl_iff:
  "(\<exists>e. traverse f xs = Inl e) \<longleftrightarrow> (\<exists>x \<in> set xs. \<exists>e. f x = Inl e)"
  by (induction xs) (auto split: sum.splits)

lemma common_at_Inl_iff:
  "i < length p1 \<Longrightarrow> (\<exists>e. common_at p1 p2 i = Inl e) \<longleftrightarrow> (length p2 \<le> i \<and> 0 < p1 ! i)"
  by (auto simp: common_at_def getitem_def ebind_def)

lemma diff_at_Inl_iff:
  "i < length p1 \<Longrightarrow> (\<exists>e. diff_at p1 p2 i = Inl e) \<longleftrightarrow> (length p2 \<le> i \<and> p1 ! i \<noteq> 0)"
  by (auto simp: diff_at_def getitem_def ebind_def)

lemma GetDistance_raises_iff:
  "(\<exists>e. GetDistance p1 p2 = Inl e) \<longleftrightarrow> (\<exists>i < length p1. length p2 \<le> i \<and> p1 ! i \<noteq> 0)"
proof -
  have c: "(\<exists>e. traverse (common_at p1 p2) [0..<length p1] = Inl e)
             \<longleftrightarrow> (\<exists>i < length p1. length p2 \<le> i \<and> 0 < p1 ! i)"
    unfolding traverse_Inl_iff using common_at_Inl_iff by auto
  have d: "(\<exists>e. traverse (diff_at p1 p2) [0..<length p1] = Inl e)
             \<longleftrightarrow> (\<exists>i < length p1. length p2 \<le> i \<and> p1 ! i \<noteq> 0)"
    unfolding traverse_Inl_iff using diff_at_Inl_iff by auto
  have "(\<exists>e. GetDistance p1 p2 = Inl e) \<longleftrightarrow>
          (\<exists>e. traverse (common_at p1 p2) [0..<length p1] = Inl e)
          \<or> (\<exists>e. traverse (diff_at p1 p2) [0..<length p1] = Inl e)"
    by (auto simp: GetDistance_def ebind_def Let_def split: sum.splits)
  then show ?thesis unfolding c d by force
qed

subsection \<open>The name index\<close>

text \<open>
  Claim C9. For a key that is not in the names map, \<open>GetName\<close> returns the empty list and, as a
  side effect of \<open>setdefault\<close>, inserts the key with an empty name, so that \<open>HasName\<close> holds
  afterwards although the key was never placed.
\<close>

theorem GetName_inserts_key:
  assumes "\<not> HasName t key"
  shows "fst (GetName t key) = []
         \<and> HasName (snd (GetName t key)) key
         \<and> map_of (names (snd (GetName t key))) key = Some []
         \<and> names (snd (GetName t key)) = names t @ [(key, [])]"
proof -
  from assms have "map_of (names t) key = None"
    by (simp add: HasName_def map_of_eq_None_iff)
  then show ?thesis
    by (simp add: GetName_def setdefault_def HasName_def map_add_def image_Un)
qed

theorem GetName_inserts_key_witness:
  "\<not> HasName \<lparr>troot = Node 1 0 [] 0 None None None, names = [(''K1'', [1, 1])], DEPTH = 2\<rparr> ''K2''
   \<and> fst (GetName \<lparr>troot = Node 1 0 [] 0 None None None, names = [(''K1'', [1, 1])], DEPTH = 2\<rparr> ''K2'') = []
   \<and> HasName (snd (GetName \<lparr>troot = Node 1 0 [] 0 None None None, names = [(''K1'', [1, 1])], DEPTH = 2\<rparr> ''K2'')) ''K2''"
proof -
  have h: "\<not> HasName \<lparr>troot = Node 1 0 [] 0 None None None, names = [(''K1'', [1, 1])], DEPTH = 2\<rparr> ''K2''"
    by (simp add: HasName_def)
  from GetName_inserts_key [OF h] h show ?thesis by blast
qed

subsection \<open>The lock file\<close>

lemma Run_removes_lock: "\<not> lock_exists (snd (Run outcome w))"
  by (cases outcome; cases "lock_exists w")
     (simp_all add: Run_def RunCalc_def DoRefresh_def os_remove_lock_def)

lemma Main_keeps_lock_when_Setup_fails:
  "lock_exists (Main (Some e) outcome \<lparr>lock_exists = False\<rparr>)"
  by (simp add: Main_def)

text \<open>
  Claim C7 says that the lock file stays whenever a step of the run fails, an I/O error during
  the save included, and goes only after a clean run. \<open>RunCalc\<close> does leave the lock when
  \<open>DoCalc\<close> raises, but \<open>Run\<close> then calls \<open>DoRefresh\<close>, which removes it: after a run whose
  \<open>DoCalc\<close> raised an I/O error the lock file is gone.
\<close>

theorem Main_removes_lock_after_failure:
  "lock_exists (Main None (Some IOError) \<lparr>lock_exists = False\<rparr>) = False"
  by (simp add: Main_def Run_def RunCalc_def DoRefresh_def os_remove_lock_def)

subsection \<open>The integrity check\<close>

lemma DoCalc_integrity_passes_iff:
  "snd (DoCalc_integrity t ac) = None
     \<longleftrightarrow> fst ` set (names t) = fst ` set (alleleCalls ac)"
  by (auto simp: DoCalc_integrity_def Let_def list_all_iff)

text \<open>
  Claim C6 says that the run aborts exactly when the keys of the names and the keys of the
  profile store, both tiers, differ. The check reads the hot dictionary only: with one key
  that is named and sits in the index, the two key sets agree and the run aborts all the same.
\<close>

theorem DoCalc_integrity_ignores_index:
  "fst ` set (names \<lparr>troot = Node 1 0 [] 0 None None None, names = [(''K1'', [1, 1])], DEPTH = 2\<rparr>)
     = store_keys \<lparr>alleleCalls = [], index = [(''K1'', Lst [0, 0])], matrices = []\<rparr>
   \<and> DoCalc_integrity
         \<lparr>troot = Node 1 0 [] 0 None None None, names = [(''K1'', [1, 1])], DEPTH = 2\<rparr>
         \<lparr>alleleCalls = [], index = [(''K1'', Lst [0, 0])], matrices = []\<rparr>
       = ([(1, ''Keys in calls file(s) missing from tree file:''), (2, ''K1'')],
          Some AssertionError)"
  by (simp add: DoCalc_integrity_def store_keys_def)

subsection \<open>The cluster test\<close>

lemma index_of_SomeD:
  assumes "index_of ne k = Some i"
  shows "i < length ne \<and> ne ! i = k"
proof -
  from assms have "(k, i) \<in> set (zip ne [0..<length ne])"
    unfolding index_of_def by (auto dest: map_of_SomeD)
  then show ?thesis by (auto simp: set_zip)
qed

lemma index_of_mem:
  assumes "k \<in> set ne"
  shows "\<exists>i. index_of ne k = Some i"
proof -
  have "map fst (zip ne [0..<length ne]) = ne" by simp
  then have "set (map fst (zip ne [0..<length ne])) = set ne" by simp
  then have "fst ` set (rev (zip ne [0..<length ne])) = set ne"
    by (simp only: set_map set_rev)
  then have "map_of (rev (zip ne [0..<length ne])) k \<noteq> None"
    using assms by (simp add: map_of_eq_None_iff)
  then show ?thesis by (auto simp: index_of_def)
qed

lemma has_profileD:
  "has_profile alleles L k \<Longrightarrow> \<exists>p. GetCalls alleles k = Inr (Some p) \<and> length p = L"
  by (auto simp: has_profile_def split: sum.splits option.splits)

lemma profile_dist_defined:
  assumes "has_profile alleles L a" "has_profile alleles L b"
  shows "profile_dist alleles a b = Inr (key_dist alleles a b)"
proof -
  from assms obtain p q where p: "GetCalls alleles a = Inr (Some p)" "length p = L"
    and q: "GetCalls alleles b = Inr (Some q)" "length q = L"
    by (auto dest!: has_profileD)
  then have "length p \<le> length q" by simp
  from GetDistance_counts [OF this] obtain d where "GetDistance p q = Inr d" by blast
  then show ?thesis
    by (simp add: key_dist_def profile_dist_def p q ebind_def GetDistance_calls_def)
qed

lemma key_dist_sym:
  assumes "has_profile alleles L a" "has_profile alleles L b"
  shows "key_dist alleles a b = key_dist alleles b a"
proof -
  from assms obtain p q where p: "GetCalls alleles a = Inr (Some p)" "length p = L"
    and q: "GetCalls alleles b = Inr (Some q)" "length q = L"
    by (auto dest!: has_profileD)
  then have l: "length p = length q" by simp
  then have "GetDistance p q = GetDistance q p"
    by (simp add: GetDistance_counts nCommon_sym nDiff_sym)
  then show ?thesis
    by (simp add: key_dist_def profile_dist_def p q ebind_def GetDistance_calls_def)
qed

lemma GetDistanceToNamedEntry_sound:
  assumes ok: "dists_ok alleles ne ds"
    and k: "k \<in> set ne"
    and pk: "has_profile alleles L k" and pu: "has_profile alleles L u"
  shows "\<exists>ds'. GetDistanceToNamedEntry alleles ne ds u k = Inr (key_dist alleles k u, ds')
               \<and> dists_ok alleles ne ds'"
proof -
  from index_of_mem [OF k] obtain i where i: "index_of ne k = Some i" by blast
  from index_of_SomeD [OF i] have il: "i < length ne" and ik: "ne ! i = k" by simp_all
  define row where "row = (case ds u of None \<Rightarrow> replicate (length ne) (- 1) | Some r \<Rightarrow> r)"
  have len: "length row = length ne"
    using ok by (auto simp: row_def dists_ok_def split: option.splits)
  have rowsound: "\<And>k' j. index_of ne k' = Some j \<Longrightarrow> 0 \<le> row ! j
                    \<Longrightarrow> profile_dist alleles k' u = Inr (row ! j)"
  proof -
    fix k' j assume a: "index_of ne k' = Some j" "0 \<le> row ! j"
    show "profile_dist alleles k' u = Inr (row ! j)"
    proof (cases "ds u")
      case None
      with a index_of_SomeD [OF a(1)] show ?thesis by (simp add: row_def)
    next
      case (Some r)
      with a ok show ?thesis by (simp add: row_def dists_ok_def)
    qed
  qed
  have pd: "profile_dist alleles k u = Inr (key_dist alleles k u)"
    by (rule profile_dist_defined [OF pk pu])
  have gi: "getitem row i = Inr (row ! i)" using il len by (simp add: getitem_def)
  show ?thesis
  proof (cases "0 \<le> row ! i")
    case True
    from rowsound [OF i True] pd have v: "row ! i = key_dist alleles k u" by simp
    have "dists_ok alleles ne (ds(u \<mapsto> row))"
      unfolding dists_ok_def using ok len rowsound
      by (auto simp: dists_ok_def)
    moreover have "GetDistanceToNamedEntry alleles ne ds u k = Inr (key_dist alleles k u, ds(u \<mapsto> row))"
      using True v gi
      by (simp add: GetDistanceToNamedEntry_def Let_def row_def[symmetric] i ebind_def)
    ultimately show ?thesis by blast
  next
    case False
    from pd obtain v1 v2 q where g: "GetCalls alleles k = Inr v1" "GetCalls alleles u = Inr v2"
        "GetDistance_calls v1 v2 = Inr q" "to_double q = key_dist alleles k u"
      by (auto simp: profile_dist_def ebind_def split: sum.splits)
    have upd: "\<And>k' j. index_of ne k' = Some j \<Longrightarrow> 0 \<le> row[i := key_dist alleles k u] ! j
                    \<Longrightarrow> profile_dist alleles k' u = Inr (row[i := key_dist alleles k u] ! j)"
    proof -
      fix k' j assume a: "index_of ne k' = Some j" "0 \<le> row[i := key_dist alleles k u] ! j"
      show "profile_dist alleles k' u = Inr (row[i := key_dist alleles k u] ! j)"
      proof (cases "j = i")
        case True
        with index_of_SomeD [OF a(1)] ik have "k' = k" by simp
        with True pd il len show ?thesis by simp
      next
        case False
        with a rowsound [OF a(1)] show ?thesis by simp
      qed
    qed
    have "dists_ok alleles ne (ds(u \<mapsto> row[i := key_dist alleles k u]))"
      unfolding dists_ok_def using ok len upd
      by (auto simp: dists_ok_def)
    moreover have "GetDistanceToNamedEntry alleles ne ds u k
                     = Inr (key_dist alleles k u, ds(u \<mapsto> row[i := key_dist alleles k u]))"
      using False gi g
      by (simp add: GetDistanceToNamedEntry_def Let_def row_def[symmetric] i ebind_def)
    ultimately show ?thesis by blast
  qed
qed

lemma any_within_sound:
  assumes "dists_ok alleles ne ds"
    and "\<forall>k \<in> set keys. k \<in> set ne \<and> has_profile alleles L k"
    and "has_profile alleles L u"
  shows "\<exists>ds'. any_within alleles ne u \<tau> keys ds = Inr (\<exists>k \<in> set keys. key_dist alleles k u \<le> \<tau>, ds')
               \<and> dists_ok alleles ne ds'"
  using assms
proof (induction keys arbitrary: ds)
  case Nil
  then show ?case by simp
next
  case (Cons k keys)
  from Cons.prems have k: "k \<in> set ne" "has_profile alleles L k" by simp_all
  from GetDistanceToNamedEntry_sound [OF Cons.prems(1) k Cons.prems(3)]
  obtain ds1 where g: "GetDistanceToNamedEntry alleles ne ds u k = Inr (key_dist alleles k u, ds1)"
    and ok1: "dists_ok alleles ne ds1" by blast
  show ?case
  proof (cases "key_dist alleles k u \<le> \<tau>")
    case True
    with g ok1 show ?thesis by (auto simp: ebind_def)
  next
    case False
    from Cons.prems have rest: "\<forall>k \<in> set keys. k \<in> set ne \<and> has_profile alleles L k" by simp
    from Cons.IH [OF ok1 rest Cons.prems(3)] obtain ds2 where
      "any_within alleles ne u \<tau> keys ds1 = Inr (\<exists>k \<in> set keys. key_dist alleles k u \<le> \<tau>, ds2)"
      "dists_ok alleles ne ds2" by blast
    with g False show ?thesis by (auto simp: ebind_def)
  qed
qed

text \<open>
  Claim C2. For every key, node and threshold \<open>\<tau>\<close>, \<open>IsInCluster\<close> returns true if the
  distance from the key to the node's founder is at most \<open>\<tau>\<close>; otherwise false if that
  distance minus the node's diameter minus \<open>2 (100 - 100 min_present)\<close> exceeds \<open>\<tau>\<close>; otherwise
  true exactly when some member of the node is within \<open>\<tau>\<close> of the key. The members are the
  node's \<open>EntryKeys\<close>; the keys involved are named and have profiles of one length, so that no
  lookup raises, and the memo table may hold any distances computed before.
\<close>

theorem IsInCluster_spec:
  assumes ok: "dists_ok alleles ne ds"
    and f: "preferred nd = Some founder" "founder \<in> set ne" "has_profile alleles L founder"
    and u: "has_profile alleles L key"
    and m: "\<forall>k \<in> set (fst (EntryKeys nd)). k \<in> set ne \<and> has_profile alleles L k"
  shows "\<exists>nd' ds'.
           IsInCluster alleles ne ds key nd \<tau> min_present
             = Inr (InCluster_spec (key_dist alleles) key founder (diameter nd) (fst (EntryKeys nd))
                      \<tau> min_present, nd', ds')
           \<and> dists_ok alleles ne ds'"
proof -
  from GetDistanceToNamedEntry_sound [OF ok f(2) f(3) u]
  obtain ds1 where g: "GetDistanceToNamedEntry alleles ne ds key founder
                         = Inr (key_dist alleles founder key, ds1)"
    and ok1: "dists_ok alleles ne ds1" by blast
  have s: "key_dist alleles founder key = key_dist alleles key founder"
    by (rule key_dist_sym [OF f(3) u])
  obtain keys nd' where e: "EntryKeys nd = (keys, nd')" by (cases "EntryKeys nd")
  from m e have m': "\<forall>k \<in> set keys. k \<in> set ne \<and> has_profile alleles L k" by simp
  from any_within_sound [OF ok1 m' u, of "to_double \<tau>"] obtain ds2 where
    a: "any_within alleles ne key (to_double \<tau>) keys ds1
          = Inr (\<exists>k \<in> set keys. key_dist alleles k key \<le> to_double \<tau>, ds2)"
    and ok2: "dists_ok alleles ne ds2" by blast
  have sy: "(\<exists>k \<in> set keys. key_dist alleles k key \<le> to_double \<tau>)
              = (\<exists>k \<in> set keys. key_dist alleles key k \<le> to_double \<tau>)"
    using m' key_dist_sym [OF _ u] by (metis)
  show ?thesis
    using g ok1 a ok2
    by (auto simp: IsInCluster_def f(1) ebind_def s e sy InCluster_spec_def Let_def)
qed

lemma dists_ok_empty: "dists_ok alleles ne Map.empty"
  by (simp add: dists_ok_def)

lemma ex_node_EntryKeys: "fst (EntryKeys ex_node) = [''K2'', ''K1'']"
  by (simp add: EntryKeys_def ex_node_def iter_entrykeys_def DFSNamed_def DFSNamed_loop.simps Let_def)

lemma ex_store_profiles:
  "has_profile ex_store 5 ''K1''" "has_profile ex_store 5 ''K2''" "has_profile ex_store 5 ''K5''"
  by (simp_all add: has_profile_def GetCalls_def ex_store_def)

lemma to_double_examples:
  "to_double 40 = 40" "to_double 20 = 20" "to_double 25 = 25"
  by code_simp+

lemma ex_key_dist:
  "key_dist ex_store ''K5'' ''K1'' = 40" "key_dist ex_store ''K5'' ''K2'' = 20"
  by (simp_all add: key_dist_def profile_dist_def GetCalls_def ex_store_def ebind_def
      GetDistance_calls_def GetDistance_def common_at_def diff_at_def getitem_def
      sum_bools_def sum_kept_def upt_rec to_double_examples)

lemma ex_fast_reject:
  "\<not> fsub (fsub 40 20) (fmul 2 (fsub 100 (fmul 100 (to_double (95 / 100))))) > 25"
  by code_simp

theorem IsInCluster_spec_witness:
  "preferred ex_node = Some ''K1'' \<and> has_profile ex_store 5 ''K1'' \<and> has_profile ex_store 5 ''K5''
   \<and> dists_ok ex_store [''K1'', ''K2''] Map.empty
   \<and> InCluster_spec (key_dist ex_store) ''K5'' ''K1'' (diameter ex_node) (fst (EntryKeys ex_node))
        25 (95 / 100)
   \<and> (\<exists>nd' ds'. IsInCluster ex_store [''K1'', ''K2''] Map.empty ''K5'' ex_node 25 (95 / 100)
                   = Inr (True, nd', ds'))"
proof -
  have f: "preferred ex_node = Some ''K1''" by (simp add: ex_node_def)
  have n: "''K1'' \<in> set [''K1'', ''K2'']" by simp
  have m: "\<forall>k \<in> set (fst (EntryKeys ex_node)).
             k \<in> set [''K1'', ''K2''] \<and> has_profile ex_store 5 k"
    by (simp add: ex_node_EntryKeys ex_store_profiles)
  have v: "InCluster_spec (key_dist ex_store) ''K5'' ''K1'' (diameter ex_node)
             (fst (EntryKeys ex_node)) 25 (95 / 100)"
  proof -
    have d: "diameter ex_node = 20" by (simp add: ex_node_def)
    show ?thesis
      using ex_fast_reject
      by (simp add: InCluster_spec_def ex_key_dist ex_node_EntryKeys d to_double_examples)
  qed
  from IsInCluster_spec [OF dists_ok_empty f n ex_store_profiles(1) ex_store_profiles(3) m,
      of 25 "95 / 100"] v
  have "\<exists>nd' ds'. IsInCluster ex_store [''K1'', ''K2''] Map.empty ''K5'' ex_node 25 (95 / 100)
                   = Inr (True, nd', ds')"
    by auto
  with f ex_store_profiles dists_ok_empty v show ?thesis by simp
qed

text \<open>
  Where rounding decides: founder \<open>[1, 1, 1]\<close>, member and new key \<open>[2, 2, 1]\<close>, diameter
  \<open>20 / 3\<close>, threshold 50. In exact arithmetic \<open>200 / 3 - 20 / 3 - 10\<close> is 50 and not above
  the threshold; in floats the left side is the double just above 50, and the node is
  rejected without a look at its members.
\<close>

lemma IsInCluster_rounding_example:
  "fsub (fsub (to_double (200 / 3)) (to_double (20 / 3)))
        (fmul 2 (fsub 100 (fmul 100 (to_double (95 / 100))))) > to_double 50"
  "map_sum id fst
     (IsInCluster
        \<lparr>alleleCalls = [(''F'', [1, 1, 1]), (''M'', [2, 2, 1]), (''U'', [2, 2, 1])],
         index = [], matrices = []\<rparr>
        [''F'', ''M''] Map.empty ''U''
        (Node 1 1 [] (20 / 3) (Some ''F'') (Some [''F'', ''M'']) None) 50 (95 / 100))
     = Inr False"
  by code_simp+

subsection \<open>The quality filter\<close>

lemma setdefault_keys: "fst ` set (snd (setdefault d k)) = insert k (fst ` set d)"
  by (auto simp: setdefault_def map_of_eq_None_iff split: option.splits dest: map_of_SomeD
      intro: rev_image_eqI)

lemma update_keys: "fst ` set (AList.update k v al) = insert k (fst ` set al)"
  by (simp add: dom_update)

lemma match_children_names:
  "match_children alleles ne u th cp level cs nms ds = Inr (cs', nms', ds', closest, matching)
     \<Longrightarrow> fst ` set nms \<subseteq> fst ` set nms'"
proof (induction cs arbitrary: nms ds cs' nms' ds' closest matching)
  case Nil
  then show ?case by simp
next
  case (Cons nd rest)
  from Cons.prems obtain b nd1 ds1 where
    i: "IsInCluster alleles ne ds u nd th cp = Inr (b, nd1, ds1)"
    by (auto simp: ebind_def split: sum.splits)
  show ?case
  proof (cases b)
    case True
    with Cons.prems i obtain k where k: "preferred nd1 = Some k"
      by (auto simp: ebind_def split: option.splits)
    obtain name nms1 where sd: "setdefault nms k = (name, nms1)" by (cases "setdefault nms k")
    from Cons.prems i True k sd obtain cs2 ds2 cl2 m2 where
      "match_children alleles ne u th cp level rest nms1 ds1 = Inr (cs2, nms', ds2, cl2, m2)"
      by (auto simp: ebind_def split: sum.splits)
    from Cons.IH [OF this] setdefault_keys [of nms k] sd show ?thesis by auto
  next
    case False
    with Cons.prems i obtain cs2 ds2 cl2 m2 where
      "match_children alleles ne u th cp level rest nms ds1 = Inr (cs2, nms', ds2, cl2, m2)"
      by (auto simp: ebind_def split: sum.splits)
    from Cons.IH [OF this] show ?thesis .
  qed
qed

lemma FinalizeName_names:
  assumes "FinalizeName rt nms key name = Inr nms'"
  shows "fst ` set nms \<subseteq> fst ` set nms'"
proof -
  from assms have "nms' = AList.update key name nms"
    by (auto simp: FinalizeName_def ebind_def split: sum.splits option.splits if_splits)
  then show ?thesis by (simp add: update_keys subset_insertI)
qed

lemma finalize_keys_names:
  "finalize_keys rt nms w keys = Inr nms' \<Longrightarrow> fst ` set nms \<subseteq> fst ` set nms'"
proof (induction keys arbitrary: nms)
  case Nil
  then show ?case by simp
next
  case (Cons k keys)
  from Cons.prems obtain nms1 where f: "FinalizeName rt nms k w = Inr nms1"
    and r: "finalize_keys rt nms1 w keys = Inr nms'"
    by (auto simp: ebind_def split: sum.splits)
  from FinalizeName_names [OF f] Cons.IH [OF r] show ?case by blast
qed

lemma validate_all_names:
  "validate_all ps rt nms = Inr (rt', nms') \<Longrightarrow> fst ` set nms \<subseteq> fst ` set nms'"
proof (induction ps arbitrary: rt nms)
  case Nil
  then show ?case by simp
next
  case (Cons pn ps)
  obtain p n where pn: "pn = (p, n)" by (cases pn)
  from Cons.prems pn obtain n1 keys nms1 where
    "ValidateNames p n = Inr n1"
    and f: "finalize_keys (update_at p (\<lambda>_. n1) rt) nms
              (case named n1 of None \<Rightarrow> [] | Some d \<Rightarrow> wgst d) keys = Inr nms1"
    and r: "validate_all ps (update_at p (\<lambda>_. n1) rt) nms1 = Inr (rt', nms')"
    by (auto simp: ebind_def Let_def split: sum.splits)
  from finalize_keys_names [OF f] Cons.IH [OF r] show ?case by blast
qed

lemma MergeNodes_names:
  "MergeNodes depth rt cur nms nodes = Inr (rt', nms', mid) \<Longrightarrow> fst ` set nms \<subseteq> fst ` set nms'"
  unfolding MergeNodes_def
  by (auto simp: ebind_def Let_def split: option.splits sum.splits prod.splits
      dest: validate_all_names)

lemma append_pattern_names: "fst ` set (c_names s) \<subseteq> fst ` set (c_names (append_pattern u v s))"
  by (auto simp: append_pattern_def Let_def update_keys)

lemma single_match_names:
  assumes "single_match alleles ne u closest matching s = Inr s'"
  shows "fst ` set (c_names s) \<subseteq> fst ` set (c_names s')"
proof -
  from assms have "\<exists>v. c_names s' = c_names (append_pattern u v s)"
    unfolding single_match_def
    by (auto simp: ebind_def Let_def
        split: list.splits option.splits sum.splits prod.splits if_splits)
  then obtain v where "c_names s' = c_names (append_pattern u v s)" ..
  then show ?thesis using append_pattern_names [of s u v] by simp
qed

lemma no_match_names:
  assumes "no_match u depth cn s = Inr s'"
  shows "fst ` set (c_names s) \<subseteq> fst ` set (c_names s')"
proof -
  from assms have "\<exists>v. c_names s' = c_names (append_pattern u v s)"
    unfolding no_match_def by (auto simp: Let_def split: prod.splits)
  then obtain v where "c_names s' = c_names (append_pattern u v s)" ..
  then show ?thesis using append_pattern_names [of s u v] by simp
qed

lemma merge_match_names:
  assumes "merge_match si alleles ne u depth closest matching cn s = Inr s'"
  shows "fst ` set (c_names s) \<subseteq> fst ` set (c_names s')"
proof -
  from assms obtain rt cur toMerge rt' nms' mid al v where
    m: "MergeNodes depth rt cur (c_names s) toMerge = Inr (rt', nms', mid)"
    and n: "c_names s' = c_names (append_pattern u v (s\<lparr>c_names := nms', c_alias := al\<rparr>))"
    unfolding merge_match_def
    by (auto simp: ebind_def Let_def
        split: list.splits option.splits sum.splits prod.splits if_splits)
  from append_pattern_names [of "s\<lparr>c_names := nms', c_alias := al\<rparr>" u v] n
  have "fst ` set nms' \<subseteq> fst ` set (c_names s')" by simp
  with MergeNodes_names [OF m] show ?thesis by (rule subset_trans)
qed

lemma CalcName_level_names:
  assumes "CalcName_level si alleles ne u cp depth level th s = Inr s'"
  shows "fst ` set (c_names s) \<subseteq> fst ` set (c_names s')"
proof -
  from assms obtain cn where cn: "node_at (c_root s) (c_cur s) = Some cn"
    unfolding CalcName_level_def by (auto split: option.splits)
  from assms cn obtain cs nms ds closest matching where
    mc: "match_children alleles ne u th cp level (children cn) (c_names s) (c_dists s)
           = Inr (cs, nms, ds, closest, matching)"
    unfolding CalcName_level_def
    by (auto simp: ebind_def split: sum.splits)
  define s1 where "s1 = s\<lparr>c_root := update_at (c_cur s) (\<lambda>_. set_children cs cn) (c_root s),
                          c_names := nms, c_dists := ds\<rparr>"
  from assms have
    "single_match alleles ne u closest matching s1 = Inr s'
     \<or> no_match u depth (set_children cs cn) s1 = Inr s'
     \<or> merge_match si alleles ne u depth closest matching (set_children cs cn) s1 = Inr s'"
    by (simp add: CalcName_level_def cn mc s1_def ebind_def Let_def split: if_splits)
  then have "fst ` set (c_names s1) \<subseteq> fst ` set (c_names s')"
    by (elim disjE) (erule single_match_names no_match_names merge_match_names)+
  moreover have "c_names s1 = nms" by (simp add: s1_def)
  ultimately show ?thesis using match_children_names [OF mc] by auto
qed

lemma CalcName_loop_names:
  "CalcName_loop si alleles ne u cp depth level ths s = Inr s'
     \<Longrightarrow> fst ` set (c_names s) \<subseteq> fst ` set (c_names s')"
proof (induction ths arbitrary: level s)
  case Nil
  then show ?case by simp
next
  case (Cons th ths)
  from Cons.prems obtain s1 where
    l: "CalcName_level si alleles ne u cp depth level th s = Inr s1"
    and r: "CalcName_loop si alleles ne u cp depth (Suc level) ths s1 = Inr s'"
    by (auto simp: ebind_def split: sum.splits)
  from CalcName_level_names [OF l] Cons.IH [OF r] show ?case by (rule subset_trans)
qed

lemma CalcName_HasName:
  assumes "CalcName si ne t alleles u ths cp = Inr t'"
  shows "HasName t' u"
proof -
  obtain pat t1 where g: "GetName t u = (pat, t1)" by (cases "GetName t u")
  then have n1: "u \<in> fst ` set (names t1)"
    using setdefault_keys [of "names t" u]
    by (auto simp: GetName_def Let_def split: prod.splits)
  from assms g obtain s where
    l: "CalcName_loop si alleles ne u cp (DEPTH t) 1 (rev (sort ths))
          \<lparr>c_root = troot t1, c_names = names t1, c_dists = Map.empty,
           c_pattern = [], c_alias = True, c_cur = []\<rparr> = Inr s"
    and t': "names t' = c_names s"
    unfolding CalcName_def
    by (auto simp: ebind_def Let_def split: if_splits sum.splits option.splits)
  from CalcName_loop_names [OF l] n1 t' show ?thesis
    by (auto simp: HasName_def)
qed

lemma calls19_ratio: "present_ratio calls19 = 18 / 19"
  by (simp add: present_ratio_def calls19_def)

lemma round_18_19: "\<not> py_round2 (18 / 19) < to_double (19 / 20)"
  by code_simp

text \<open>
  A tie in decimal: 39 of 40 is 0.975, the double nearest to it lies below, and
  \<open>round\<close> gives 0.97, under a cutoff of 0.98.
\<close>

lemma round_39_40: "py_round2 (39 / 40) < to_double (98 / 100)"
  by code_simp

lemma CheckCore_calls19: "CheckCore (95 / 100) calls19 = Inr (Some calls19)"
proof -
  have "length calls19 \<noteq> 0" by (simp add: calls19_def)
  then show ?thesis by (simp add: CheckCore_def calls19_ratio round_18_19)
qed

text \<open>
  With the default cutoff 0.95, a profile with 18 of its 19 loci called has a presence of
  about 0.947, below the cutoff; rounded to two decimals it is 0.95, and the profile passes,
  is stored and is placed.
\<close>

theorem DoCalc_entry_accepts_below_cutoff:
  "present_ratio calls19 < calc_minPres qc_calc
   \<and> to_double (present_ratio calls19) < to_double (calc_minPres qc_calc)
   \<and> (\<exists>c ne. DoCalc_entry remdups (''K7'', calls19) (qc_calc, []) = Inr (c, ne)
          \<and> calc_belowQC c = [] \<and> HasName (calc_tree c) ''K7''
          \<and> HasKey (calc_alleleCalls c) ''K7'')"
proof -
  have r: "present_ratio calls19 < calc_minPres qc_calc"
    by (simp add: calls19_ratio qc_calc_def)
  have "to_double (18 / 19) < to_double (19 / 20)" by code_simp
  then have r': "to_double (present_ratio calls19) < to_double (calc_minPres qc_calc)"
    by (simp add: calls19_ratio qc_calc_def)
  have h: "\<not> HasName (calc_tree qc_calc) ''K7''" by (simp add: qc_calc_def HasName_def)
  have c: "CheckCore (calc_minPres qc_calc) calls19 = Inr (Some calls19)"
    using CheckCore_calls19 by (simp add: qc_calc_def)
  have a: "Add (calc_alleleCalls qc_calc) ''K7'' calls19
             = Inr \<lparr>alleleCalls = [(''K7'', calls19)], index = [], matrices = []\<rparr>"
    by (simp add: Add_def qc_calc_def)
  have "\<exists>t. CalcName remdups [] (calc_tree qc_calc)
               \<lparr>alleleCalls = [(''K7'', calls19)], index = [], matrices = []\<rparr> ''K7''
               (calc_thresholds qc_calc) (calc_minPres qc_calc) = Inr t"
    by (simp add: qc_calc_def CalcName_def GetName_def setdefault_def ebind_def Let_def
        sort_key_def [symmetric] CalcName_level_def no_match_def NewChildNode_def
        append_pattern_def GetChild_def set_children_def set_entryKeys_def set_preferred_def
        set_diameter_def set_named_def AddNamedChild_def)
  then obtain t where t: "CalcName remdups [] (calc_tree qc_calc)
               \<lparr>alleleCalls = [(''K7'', calls19)], index = [], matrices = []\<rparr> ''K7''
               (calc_thresholds qc_calc) (calc_minPres qc_calc) = Inr t" ..
  from CalcName_HasName [OF t] have n: "HasName t ''K7''" .
  have "DoCalc_entry remdups (''K7'', calls19) (qc_calc, [])
          = Inr (qc_calc\<lparr>calc_newKeys := insert ''K7'' (calc_newKeys qc_calc),
                         calc_alleleCalls := \<lparr>alleleCalls = [(''K7'', calls19)], index = [],
                                               matrices = []\<rparr>,
                         calc_tree := t\<rparr>, [''K7''])"
    using h c a t n by (simp add: DoCalc_entry_def ebind_def Let_def)
  moreover have "calc_belowQC qc_calc = []" by (simp add: qc_calc_def)
  ultimately show ?thesis using r r' n by (simp add: HasKey_def)
qed

text \<open>
  Claim C4, amended. A new profile (its key has no name yet) is rejected exactly when its
  presence, the share of non-zero calls, rounded to two decimals as Python's \<open>round\<close> rounds
  the float quotient, is below \<open>min_present\<close>.
  A rejected profile is recorded under its key in \<open>below_qc\<close>, with the reason \<open>CORE\<close>, and
  leaves tree, names and profile store as they were, so it gains no entry in the names. A
  profile that is not rejected is not recorded in \<open>below_qc\<close>; if its placement returns, it is
  in the profile store and has a name.
\<close>

theorem DoCalc_entry_quality_filter:
  assumes "\<not> HasName (calc_tree c) key" and "calls \<noteq> []"
  shows "(py_round2 (present_ratio calls) < to_double (calc_minPres c) \<longrightarrow>
            (\<exists>c'. DoCalc_entry si (key, calls) (c, ne) = Inr (c', ne)
                  \<and> calc_belowQC c' = belowQC_append (calc_belowQC c) key ''CORE''
                  \<and> calc_tree c' = calc_tree c
                  \<and> calc_alleleCalls c' = calc_alleleCalls c
                  \<and> \<not> HasName (calc_tree c') key))
         \<and> (\<not> py_round2 (present_ratio calls) < to_double (calc_minPres c) \<longrightarrow>
              (\<forall>c' ne'. DoCalc_entry si (key, calls) (c, ne) = Inr (c', ne') \<longrightarrow>
                  calc_belowQC c' = calc_belowQC c
                  \<and> HasKey (calc_alleleCalls c') key
                  \<and> HasName (calc_tree c') key))"
proof (rule conjI; intro impI allI)
  assume r: "py_round2 (present_ratio calls) < to_double (calc_minPres c)"
  with assms have "CheckCore (calc_minPres c) calls = Inr None"
    by (simp add: CheckCore_def)
  with assms show "\<exists>c'. DoCalc_entry si (key, calls) (c, ne) = Inr (c', ne)
      \<and> calc_belowQC c' = belowQC_append (calc_belowQC c) key ''CORE''
      \<and> calc_tree c' = calc_tree c
      \<and> calc_alleleCalls c' = calc_alleleCalls c
      \<and> \<not> HasName (calc_tree c') key"
    by (simp add: DoCalc_entry_def ebind_def Let_def)
next
  fix c' ne'
  assume r: "\<not> py_round2 (present_ratio calls) < to_double (calc_minPres c)"
    and d: "DoCalc_entry si (key, calls) (c, ne) = Inr (c', ne')"
  from r assms have cc: "CheckCore (calc_minPres c) calls = Inr (Some calls)"
    by (simp add: CheckCore_def)
  from d assms cc obtain ac t where
    a: "Add (calc_alleleCalls c) key calls = Inr ac"
    and t: "CalcName si ne (calc_tree c) ac key (calc_thresholds c) (calc_minPres c) = Inr t"
    and c': "c' = c\<lparr>calc_newKeys := insert key (calc_newKeys c),
                     calc_alleleCalls := ac, calc_tree := t\<rparr>"
    by (auto simp: DoCalc_entry_def ebind_def Let_def split: sum.splits)
  from a have "HasKey ac key"
    by (auto simp: Add_def HasKey_def split: if_splits)
  with CalcName_HasName [OF t] c'
  show "calc_belowQC c' = calc_belowQC c \<and> HasKey (calc_alleleCalls c') key
          \<and> HasName (calc_tree c') key"
    by simp
qed

theorem DoCalc_entry_quality_filter_witness:
  "\<not> HasName (calc_tree qc_calc) ''K7'' \<and> [0, 0, 0, 1, 1 :: int] \<noteq> []
   \<and> py_round2 (present_ratio [0, 0, 0, 1, 1]) < to_double (calc_minPres qc_calc)
   \<and> (\<exists>c'. DoCalc_entry remdups (''K7'', [0, 0, 0, 1, 1]) (qc_calc, []) = Inr (c', [])
          \<and> calc_belowQC c' = [(''K7'', [''CORE''])]
          \<and> \<not> HasName (calc_tree c') ''K7'')"
proof -
  have h: "\<not> HasName (calc_tree qc_calc) ''K7''" by (simp add: qc_calc_def HasName_def)
  have n: "[0, 0, 0, 1, 1 :: int] \<noteq> []" by simp
  have "py_round2 (2 / 5) < to_double (19 / 20)" by code_simp
  then have r: "py_round2 (present_ratio [0, 0, 0, 1, 1]) < to_double (calc_minPres qc_calc)"
    by (simp add: present_ratio_def qc_calc_def)
  have b: "belowQC_append (calc_belowQC qc_calc) ''K7'' ''CORE'' = [(''K7'', [''CORE''])]"
    by (simp add: belowQC_append_def qc_calc_def)
  from DoCalc_entry_quality_filter [OF h n, of remdups "[]"] r b h n show ?thesis by auto
qed

subsection \<open>The survivor of a merge\<close>

lemma fold_first_largest:
  assumes "first_largest f pre best"
  shows "first_largest f (pre @ rest)
           (fold (\<lambda>y best. if f y > f best then y else best) rest best)"
  using assms
proof (induction rest arbitrary: pre best)
  case Nil
  then show ?case by simp
next
  case (Cons y rest)
  let ?best' = "if f y > f best then y else best"
  have "first_largest f (pre @ [y]) ?best'"
  proof (cases "f y > f best")
    case True
    from Cons.prems obtain i where i: "i < length pre" "pre ! i = best"
      "\<forall>j < length pre. f (pre ! j) \<le> f best"
      by (auto simp: first_largest_def)
    have "\<forall>j < length (pre @ [y]). f ((pre @ [y]) ! j) \<le> f y"
      using i(3) True by (auto simp: nth_append less_Suc_eq intro: order_trans less_imp_le)
    moreover have "\<forall>j < length pre. f ((pre @ [y]) ! j) < f y"
      using i(3) True by (auto simp: nth_append intro: le_less_trans)
    ultimately show ?thesis
      using True unfolding first_largest_def
      by (intro exI [of _ "length pre"]) simp
  next
    case False
    from Cons.prems obtain i where i: "i < length pre" "pre ! i = best"
      "\<forall>j < length pre. f (pre ! j) \<le> f best" "\<forall>j < i. f (pre ! j) < f best"
      by (auto simp: first_largest_def)
    have "\<forall>j < length (pre @ [y]). f ((pre @ [y]) ! j) \<le> f best"
      using i(3) False by (auto simp: nth_append less_Suc_eq)
    moreover have "\<forall>j < i. f ((pre @ [y]) ! j) < f best"
      using i(1,4) by (auto simp: nth_append)
    moreover have "(pre @ [y]) ! i = best" using i(1,2) by (simp add: nth_append)
    ultimately show ?thesis
      using False i(1) unfolding first_largest_def
      by (intro exI [of _ i]) simp
  qed
  from Cons.IH [OF this] show ?case by simp
qed

lemma py_max_by_first_largest:
  assumes "py_max_by f xs = Inr x"
  shows "first_largest f xs x"
proof (cases xs)
  case Nil
  with assms show ?thesis by (simp add: py_max_by_def)
next
  case (Cons a rest)
  have "first_largest f [a] a" by (simp add: first_largest_def)
  from fold_first_largest [OF this, of rest] assms Cons show ?thesis
    by (simp add: py_max_by_def)
qed

lemma py_max_fold: "py_max (x # xs) = Inr (Max (set (x # xs)))"
  unfolding py_max_def using Max.set_eq_fold [of x xs] by simp

lemma first_index_first_largest:
  assumes m: "py_max (map g xs) = Inr mx"
  shows "first_index (\<lambda>x. g x = mx) xs < length xs
         \<and> first_largest g xs (xs ! first_index (\<lambda>x. g x = (mx::nat)) xs)"
proof -
  from m obtain a rest where xs: "xs = a # rest" by (cases xs) (auto simp: py_max_def)
  with m have mx: "mx = Max (set (map g xs))" using py_max_fold [of "g a" "map g rest"] by simp
  have fin: "finite (set (map g xs))" "set (map g xs) \<noteq> {}" using xs by simp_all
  from Max_in [OF fin] mx obtain w where w: "w \<in> set xs" "g w = mx" by auto
  have le: "\<And>y. y \<in> set xs \<Longrightarrow> g y \<le> mx" using mx fin by simp
  let ?i = "first_index (\<lambda>x. g x = mx) xs"
  let ?pre = "takeWhile (\<lambda>x. \<not> g x = mx) xs"
  have i: "?i = length ?pre" by (simp add: first_index_def)
  have "dropWhile (\<lambda>x. \<not> g x = mx) xs \<noteq> []"
    using w by (auto simp: dropWhile_eq_Nil_conv)
  moreover have "length ?pre + length (dropWhile (\<lambda>x. \<not> g x = mx) xs) = length xs"
    using takeWhile_dropWhile_id [of "\<lambda>x. \<not> g x = mx" xs]
    by (metis length_append)
  ultimately have il': "length ?pre < length xs"
    by (cases "dropWhile (\<lambda>x. \<not> g x = mx) xs") simp_all
  then have il: "?i < length xs" by (simp add: i)
  from nth_length_takeWhile [OF il'] have at: "g (xs ! ?i) = mx" by (simp add: i)
  have before: "\<And>j. j < ?i \<Longrightarrow> g (xs ! j) \<noteq> mx"
  proof -
    fix j assume "j < ?i"
    then have j: "j < length ?pre" by (simp add: i)
    then have "?pre ! j \<in> set ?pre" by (rule nth_mem)
    then have "\<not> g (?pre ! j) = mx" by (rule set_takeWhileD [THEN conjunct2])
    with takeWhile_nth [OF j] show "g (xs ! j) \<noteq> mx" by simp
  qed
  have "\<forall>j < length xs. g (xs ! j) \<le> g (xs ! ?i)" using le at by simp
  moreover have "\<forall>j < ?i. g (xs ! j) < g (xs ! ?i)"
  proof (intro allI impI)
    fix j assume j: "j < ?i"
    with il have "j < length xs" by simp
    with le have "g (xs ! j) \<le> mx" by simp
    with before [OF j] at show "g (xs ! j) < g (xs ! ?i)" by simp
  qed
  ultimately show ?thesis using il unfolding first_largest_def by blast
qed

lemma GetChild_nID: "GetChild n i = Some c \<Longrightarrow> nID c = i"
  by (auto simp: GetChild_def find_Some_iff)

lemma node_at_snoc:
  "node_at rt (p @ [i]) = Some n \<Longrightarrow> nID n = i"
proof (induction p arbitrary: rt)
  case Nil
  then show ?case by (auto split: option.splits dest: GetChild_nID)
next
  case (Cons j p)
  then show ?case by (auto split: option.splits)
qed

lemma children_set_children [simp]: "children (set_children cs n) = cs"
  by (simp add: set_children_def)

lemma nID_set_children [simp]: "nID (set_children cs n) = nID n"
  by (simp add: set_children_def)

lemma find_replace_first:
  "find (\<lambda>c. nID c = i) cs = Some c \<Longrightarrow> nID c' = i
     \<Longrightarrow> find (\<lambda>c. nID c = i) (replace_first i c' cs) = Some c'"
  by (induction cs) (auto split: if_splits)

lemma nID_update_at:
  "node_at c q = Some n \<Longrightarrow> nID n' = nID n \<Longrightarrow> nID (update_at q (\<lambda>_. n') c) = nID c"
  by (cases q) (auto split: option.splits)

lemma node_at_update_at:
  "node_at rt p = Some n \<Longrightarrow> nID n' = nID n
     \<Longrightarrow> node_at (update_at p (\<lambda>_. n') rt) p = Some n'"
proof (induction p arbitrary: rt)
  case Nil
  then show ?case by simp
next
  case (Cons i p)
  from Cons.prems obtain c where c: "GetChild rt i = Some c" "node_at c p = Some n"
    by (auto split: option.splits)
  have id: "nID (update_at p (\<lambda>_. n') c) = i"
    using nID_update_at [OF c(2) Cons.prems(2)] GetChild_nID [OF c(1)] by simp
  from c(1) have "find (\<lambda>c. nID c = i) (children rt) = Some c" by (simp add: GetChild_def)
  from find_replace_first [OF this id]
  have "GetChild (set_children (replace_first i (update_at p (\<lambda>_. n') c) (children rt)) rt) i
          = Some (update_at p (\<lambda>_. n') c)"
    by (simp add: GetChild_def)
  with c Cons.IH [OF c(2) Cons.prems(2)] show ?case by simp
qed

lemma traverse_GetChild_ids:
  "traverse (\<lambda>i. case GetChild self i of None \<Rightarrow> Inl AttributeError | Some c \<Rightarrow> Inr c) ids
     = Inr cs \<Longrightarrow> map nID cs = ids \<and> (\<forall>c \<in> set cs. GetChild self (nID c) = Some c)"
proof (induction ids arbitrary: cs)
  case Nil
  then show ?case by simp
next
  case (Cons i ids)
  from Cons.prems obtain c cs' where c: "GetChild self i = Some c"
    and r: "traverse (\<lambda>i. case GetChild self i of None \<Rightarrow> Inl AttributeError | Some c \<Rightarrow> Inr c) ids
              = Inr cs'"
    and cs: "cs = c # cs'"
    by (auto split: option.splits sum.splits)
  from Cons.IH [OF r] GetChild_nID [OF c] c cs show ?case by auto
qed

text \<open>
  What \<open>MergeNodes\<close> returns as the survivor: of the children named by \<open>nodes\<close>, each taken
  once, the first of those holding the most keys.
\<close>

lemma MergeNodes_survivor:
  assumes "MergeNodes depth rt cur nms nodes = Inr (rt', nms', mid)"
  shows "\<exists>self cands maxObj.
           node_at rt cur = Some self
           \<and> map nID cands = dedup_first nodes
           \<and> (\<forall>c \<in> set cands. GetChild self (nID c) = Some c)
           \<and> first_largest node_size cands maxObj
           \<and> mid = nID maxObj"
proof -
  from assms obtain self where self: "node_at rt cur = Some self"
    unfolding MergeNodes_def by (auto split: option.splits)
  from assms self obtain cands where
    c: "traverse (\<lambda>i. case GetChild self i of None \<Rightarrow> Inl AttributeError | Some c \<Rightarrow> Inr c)
          (dedup_first nodes) = Inr cands"
    unfolding MergeNodes_def by (auto simp: ebind_def split: sum.splits)
  from assms self c obtain maxObj where m: "py_max_by node_size cands = Inr maxObj"
    unfolding MergeNodes_def by (auto simp: ebind_def split: sum.splits)
  from assms self c m have mid: "mid = nID maxObj"
    unfolding MergeNodes_def
    by (auto simp: ebind_def Let_def split: sum.splits prod.splits if_splits)
  from traverse_GetChild_ids [OF c] py_max_by_first_largest [OF m] self mid
  show ?thesis by blast
qed

lemma preferred_EntryKeys [simp]: "preferred (snd (EntryKeys m)) = preferred m"
  by (simp add: EntryKeys_def set_entryKeys_def Let_def split: option.splits)

lemma nID_setters [simp]:
  "nID (set_entryKeys ks n) = nID n" "nID (set_diameter d n) = nID n"
  "nID (set_preferred p n) = nID n"
  by (simp_all add: set_entryKeys_def set_diameter_def set_preferred_def)

lemma preferred_setters [simp]:
  "preferred (set_entryKeys ks n) = preferred n" "preferred (set_diameter d n) = preferred n"
  "preferred (set_preferred p n) = p"
  by (simp_all add: set_entryKeys_def set_diameter_def set_preferred_def)

lemma c_fields_append_pattern [simp]:
  "c_pattern (append_pattern u v s) = c_pattern s @ [v]"
  "c_cur (append_pattern u v s) = c_cur s"
  "c_root (append_pattern u v s) = c_root s"
  by (simp_all add: append_pattern_def Let_def)

lemma first_index_map: "first_index P (map h xs) = first_index (\<lambda>x. P (h x)) xs"
  by (simp add: first_index_def takeWhile_map comp_def)

lemma traverse_last:
  "traverse (\<lambda>c. if c = [] then Inl IndexError else Inr (last c)) xs = Inr ys
     \<Longrightarrow> ys = map last xs"
  by (induction xs arbitrary: ys) (auto split: if_splits sum.splits)

text \<open>
  Claim C3, amended. When more than one cluster matches at a level, the node that survives
  the merge, whose id is appended to the path of the new key and which the placement goes on
  from, is the first of the largest among the children that the merge list names: largest by
  the number of keys in its terminal nodes, first in the order in which the set
  \<open>closestClusters\<close> is iterated, whatever its id. The founder of the merged node is the
  founder of the first of the largest matching children, largest by the length of
  \<open>EntryKeys\<close> and first in the order of the children.
\<close>

theorem merge_match_survivor:
  assumes "merge_match si alleles ne u depth closest matching cn s = Inr s'"
  shows "\<exists>self cands maxObj pick final.
           node_at (update_at (c_cur s)
                      (\<lambda>_. write_back (map snd (map EntryKeys matching)) cn) (c_root s))
                   (c_cur s) = Some self
           \<and> map nID cands = dedup_first (map last (si closest))
           \<and> (\<forall>c \<in> set cands. GetChild self (nID c) = Some c)
           \<and> first_largest node_size cands maxObj
           \<and> c_cur s' = c_cur s @ [nID maxObj]
           \<and> c_pattern s' = c_pattern s @ [nID maxObj]
           \<and> first_largest (\<lambda>m. length (fst (EntryKeys m))) matching pick
           \<and> node_at (c_root s') (c_cur s') = Some final
           \<and> nID final = nID maxObj
           \<and> preferred final = preferred pick"
proof -
  let ?g = "\<lambda>m. length (fst (EntryKeys m))"
  let ?rt = "update_at (c_cur s) (\<lambda>_. write_back (map snd (map EntryKeys matching)) cn) (c_root s)"
  have sizes: "map (\<lambda>(ks, m). length ks) (map EntryKeys matching) = map ?g matching"
    by (simp add: case_prod_beta)
  from assms obtain maxSize where mx: "py_max (map ?g matching) = Inr maxSize"
    unfolding merge_match_def sizes Let_def
    by (auto simp: ebind_def split: sum.splits)
  let ?idx = "first_index (\<lambda>m. ?g m = maxSize) matching"
  have idx: "first_index (\<lambda>(ks, m). length ks = maxSize) (map EntryKeys matching) = ?idx"
    by (simp add: first_index_map case_prod_beta)
  from first_index_first_largest [OF mx]
  have il: "?idx < length matching" and fl: "first_largest ?g matching (matching ! ?idx)"
    by simp_all
  have gi: "getitem (map EntryKeys matching) ?idx = Inr (EntryKeys (matching ! ?idx))"
    using il by (simp add: getitem_def)
  obtain pks pick' where pk: "EntryKeys (matching ! ?idx) = (pks, pick')"
    by (cases "EntryKeys (matching ! ?idx)")
  then have pp: "preferred pick' = preferred (matching ! ?idx)"
    using preferred_EntryKeys [of "matching ! ?idx"] by simp
  from assms obtain newPreferred where np: "preferred pick' = Some newPreferred"
    unfolding merge_match_def sizes Let_def
    by (auto simp: ebind_def mx idx gi pk split: option.splits)
  from assms obtain toMerge rt' nms' mid maxObj0 diam ds' where
    tm: "traverse (\<lambda>c. if c = [] then Inl IndexError else Inr (last c)) (si closest) = Inr toMerge"
    and mn: "MergeNodes depth ?rt (c_cur s) (c_names s) toMerge = Inr (rt', nms', mid)"
    and na: "node_at rt' (c_cur s @ [mid]) = Some maxObj0"
    and s': "s' = (append_pattern u mid
                    (s\<lparr>c_names := nms',
                       c_alias := (c_alias s \<and> u \<notin> set (iter_entrykeys maxObj0))\<rparr>))
                  \<lparr>c_root := update_at (c_cur s @ [mid])
                       (\<lambda>_. set_entryKeys (Some (u # concat (map fst (map EntryKeys matching))))
                              (set_diameter diam (set_preferred (Some newPreferred) maxObj0))) rt',
                   c_dists := ds', c_cur := c_cur s @ [mid]\<rparr>"
    unfolding merge_match_def sizes Let_def
    by (auto simp: ebind_def mx idx gi pk np split: sum.splits option.splits prod.splits)
  have tml: "toMerge = map last (si closest)" by (rule traverse_last [OF tm])
  from MergeNodes_survivor [OF mn] obtain self cands maxObj where
    sv: "node_at ?rt (c_cur s) = Some self" "map nID cands = dedup_first toMerge"
      "\<forall>c \<in> set cands. GetChild self (nID c) = Some c"
      "first_largest node_size cands maxObj" "mid = nID maxObj"
    by blast
  let ?final = "set_entryKeys (Some (u # concat (map fst (map EntryKeys matching))))
                  (set_diameter diam (set_preferred (Some newPreferred) maxObj0))"
  have "nID ?final = nID maxObj0" by simp
  from node_at_update_at [OF na this]
  have fin: "node_at (c_root s') (c_cur s') = Some ?final" by (simp add: s')
  have a: "nID ?final = nID maxObj" using node_at_snoc [OF na] sv(5) by simp
  have b: "preferred ?final = preferred (matching ! ?idx)" using np pp by simp
  have c: "c_cur s' = c_cur s @ [nID maxObj]" "c_pattern s' = c_pattern s @ [nID maxObj]"
    by (simp_all add: s' sv(5))
  have d: "map nID cands = dedup_first (map last (si closest))" using sv(2) tml by simp
  show ?thesis
    by (intro exI [of _ self] exI [of _ cands] exI [of _ maxObj]
        exI [of _ "matching ! ?idx"] exI [of _ ?final] conjI)
       (fact sv(1) d sv(3) sv(4) c fl fin a b)+
qed

lemma merge_tree_built:
  "map_sum id (\<lambda>(c, ne). (calc_tree c, ne)) (DoCalc_loop rev merge_profiles (merge_calc, []))
     = Inr (merge_tree, [''K1'', ''K2'', ''K3'', ''K4'', ''K5'', ''K6''])"
  by code_simp

lemma merge_which_match:
  "map (\<lambda>c. map_sum id fst
               (IsInCluster merge_store [''K1'', ''K2'', ''K3'', ''K4'', ''K5'', ''K6'']
                  Map.empty ''K7'' c 25 (6 / 10)))
     (children (troot merge_tree))
   = [Inr True, Inr False, Inr False, Inr False, Inr False, Inr True]"
  by code_simp

lemma merge_spec_anchor:
  "spec_anchor [single_cluster 1 ''K1'', single_cluster 6 ''K6''] (single_cluster 1 ''K1'')"
  "\<not> spec_anchor [single_cluster 1 ''K1'', single_cluster 6 ''K6''] (single_cluster 6 ''K6'')"
  by code_simp+

lemma merge_CalcName:
  "CalcName rev [''K1'', ''K2'', ''K3'', ''K4'', ''K5'', ''K6''] merge_tree merge_store ''K7''
     [25, 10] (6 / 10) = Inr merged_tree"
  by code_simp

lemma merge_CalcName_insertion_order:
  "map_sum id names
     (CalcName remdups [''K1'', ''K2'', ''K3'', ''K4'', ''K5'', ''K6''] merge_tree merge_store
        ''K7'' [25, 10] (6 / 10))
   = Inr [(''K1'', [1, 1]), (''K2'', [2, 1]), (''K3'', [3, 1]), (''K4'', [4, 1]),
          (''K5'', [5, 1]), (''K6'', [1, 2]), (''K7'', [1, 3])]"
  by code_simp

lemma merge_match_runs:
  "map_sum id c_cur
     (merge_match rev merge_store [''K1'', ''K2'', ''K3'', ''K4'', ''K5'', ''K6''] ''K7'' 2
        [[1], [6]] [single_cluster 1 ''K1'', single_cluster 6 ''K6''] (troot merge_tree)
        merge_state) = Inr [6]"
  by code_simp

text \<open>
  Claim C3 as it stands says that the survivor is the matching child with the most members
  and, among equals, the smallest id. Here the level-1 clusters 1 and 6 match the new key
  \<open>K7\<close> and hold one key each, so that would be cluster 1. The set \<open>closestClusters\<close> holds
  the tuples \<open>(1,)\<close> and \<open>(6,)\<close>, which CPython iterates with \<open>(6,)\<close> first (in an eight-slot
  table they hash to the slots 6 and 5 under the tuple hash of Python 3.6, and to 1 and 0
  under that of Python 3.8 and later). \<open>MergeNodes\<close> then keeps cluster 6 and absorbs cluster
  1: the new key gets the path \<open>[6, 3]\<close>, \<open>K1\<close> moves to \<open>[6, 2]\<close>, and the merged cluster 6 has
  the founder of cluster 1. Iterated in the order of insertion the same placement keeps
  cluster 1.
\<close>

theorem merge_survivor_not_smallest_id:
  "map (\<lambda>c. map_sum id fst
               (IsInCluster merge_store [''K1'', ''K2'', ''K3'', ''K4'', ''K5'', ''K6'']
                  Map.empty ''K7'' c 25 (6 / 10)))
     (children (troot merge_tree))
   = [Inr True, Inr False, Inr False, Inr False, Inr False, Inr True]
   \<and> spec_anchor [single_cluster 1 ''K1'', single_cluster 6 ''K6''] (single_cluster 1 ''K1'')
   \<and> nID (single_cluster 1 ''K1'') = 1
   \<and> CalcName rev [''K1'', ''K2'', ''K3'', ''K4'', ''K5'', ''K6''] merge_tree merge_store ''K7''
         [25, 10] (6 / 10) = Inr merged_tree
   \<and> map_of (names merged_tree) ''K7'' = Some [6, 3]
   \<and> map nID (children (troot merged_tree)) = [2, 3, 4, 5, 6]
   \<and> map_option preferred (GetChild (troot merged_tree) 6) = Some (Some ''K1'')"
proof -
  have "nID (single_cluster 1 ''K1'') = 1" by (simp add: single_cluster_def)
  moreover have "map_of (names merged_tree) ''K7'' = Some [6, 3]"
    "map nID (children (troot merged_tree)) = [2, 3, 4, 5, 6]"
    "map_option preferred (GetChild (troot merged_tree) 6) = Some (Some ''K1'')"
    by (simp_all add: merged_tree_def single_cluster_def GetChild_def)
  ultimately show ?thesis
    using merge_which_match merge_spec_anchor(1) merge_CalcName by simp
qed

theorem merge_match_survivor_witness:
  "\<exists>s'. merge_match rev merge_store [''K1'', ''K2'', ''K3'', ''K4'', ''K5'', ''K6''] ''K7'' 2
           [[1], [6]] [single_cluster 1 ''K1'', single_cluster 6 ''K6''] (troot merge_tree)
           merge_state = Inr s'
        \<and> c_cur s' = [6] \<and> c_pattern s' = [6]
        \<and> (\<exists>final. node_at (c_root s') (c_cur s') = Some final \<and> nID final = 6)"
proof -
  from merge_match_runs obtain s' where
    m: "merge_match rev merge_store [''K1'', ''K2'', ''K3'', ''K4'', ''K5'', ''K6''] ''K7'' 2
          [[1], [6]] [single_cluster 1 ''K1'', single_cluster 6 ''K6''] (troot merge_tree)
          merge_state = Inr s'"
    and c: "c_cur s' = [6]"
    by (cases "merge_match rev merge_store [''K1'', ''K2'', ''K3'', ''K4'', ''K5'', ''K6'']
          ''K7'' 2 [[1], [6]] [single_cluster 1 ''K1'', single_cluster 6 ''K6'']
          (troot merge_tree) merge_state") auto
  from merge_match_survivor [OF m] obtain maxObj final where
    r: "c_cur s' = c_cur merge_state @ [nID maxObj]"
       "c_pattern s' = c_pattern merge_state @ [nID maxObj]"
       "node_at (c_root s') (c_cur s') = Some final" "nID final = nID maxObj"
    by blast
  from r(1) c have "nID maxObj = 6" by (simp add: merge_state_def)
  with r c m show ?thesis by (simp add: merge_state_def)
qed

end
